theory Spec2Isabelle
  imports Main "HOL-Library.Word" "HOL-Library.Signed_Division"
begin

section \<open>Elementwise GPU loops: launch configuration and kernels of CUDALoops.cuh\<close>

text \<open>
  The development embeds \<^verbatim>\<open>aten/src/ATen/native/cuda/CUDALoops.cuh\<close>:
  the two host-side launch functions (namespaces \<^verbatim>\<open>legacy\<close> and \<^verbatim>\<open>modern\<close>), the
  two device kernels, and the vectorization-width selector
  \<^verbatim>\<open>modern::detail::can_vectorize_up_to\<close>.

  Machine integers are words: \<^verbatim>\<open>int\<close> and \<^verbatim>\<open>unsigned int\<close> are \<open>32 word\<close>,
  \<^verbatim>\<open>int64_t\<close> is \<open>64 word\<close>. Addition, subtraction and multiplication wrap around;
  a signed comparison is \<open><s\<close>, an unsigned one \<open><\<close>. Unsigned arithmetic and
  conversions between integer types wrap around, as C++ defines them. Signed \<^verbatim>\<open>int\<close>
  arithmetic in the legacy kernel (\<^verbatim>\<open>nt * vt\<close>, \<^verbatim>\<open>idx += nt\<close>) whose result is not
  representable is undefined behaviour in C++: the model of the kernel then has no result
  (\<open>None\<close>).
\<close>

subsection \<open>Machine integers\<close>

type_synonym int32 = "32 word"
type_synonym uint32 = "32 word"
type_synonym int64 = "64 word"
type_synonym address = "64 word"

text \<open>\<^verbatim>\<open>std::numeric_limits<int32_t>::max()\<close>, promoted to \<^verbatim>\<open>int64_t\<close> in the comparison with \<open>N\<close>.\<close>

definition INT32_MAX :: int64 where
  "INT32_MAX = 2147483647"

text \<open>
  Division of two \<^verbatim>\<open>int64_t\<close> values: C++ truncates towards zero (\<open>sdiv\<close> on \<open>int\<close>).
  Division by zero is undefined in C++; here it yields 0, and every theorem that reaches a
  division assumes a positive divisor.
\<close>

definition div_int64 :: "int64 \<Rightarrow> int64 \<Rightarrow> int64" where
  "div_int64 a b = word_of_int (sint a sdiv sint b)"

subsection \<open>Function traits\<close>

text \<open>
  The element types a user function can mention. \<open>Dont_care\<close> is
  \<^verbatim>\<open>arg_type::dont_care\<close>, the placeholder argument type of a nullary function.
\<close>

datatype ctype =
    C_bool | C_uint8 | C_int8 | C_int16 | C_int32 | C_int64 | C_half | C_float | C_double
  | Dont_care

text \<open>
  \<^verbatim>\<open>function_traits<func_t>\<close>: what the launch code reads off the type of the user
  function. \<^verbatim>\<open>traits::arity\<close> is the number of argument types.
\<close>

record func_t =
  arg_types :: "ctype list"
  result_type :: ctype

definition arity :: "func_t \<Rightarrow> nat" where
  "arity f = length (arg_types f)"

text \<open>
  \<^verbatim>\<open>arg_type::type<func_t>\<close>: \<^verbatim>\<open>arg_type_helper<func_t, 0>\<close> is \<^verbatim>\<open>dont_care\<close>, any other
  arity gives \<^verbatim>\<open>function_traits<func_t>::arg<0>::type\<close>.
\<close>

definition arg_type :: "func_t \<Rightarrow> ctype" where
  "arg_type f = (case arg_types f of [] \<Rightarrow> Dont_care | t # _ \<Rightarrow> t)"

text \<open>
  Modelled from the spec: \<^verbatim>\<open>detail::has_same_arg_types<func_t>\<close> is declared outside
  this file (only its use in the two \<^verbatim>\<open>enable_if\<close> guards of \<^verbatim>\<open>modern::launch_kernel\<close>
  is here). The spec calls it the compile-time predicate that the argument types of the
  function are uniform: all positional arguments share one type.
\<close>

definition has_same_arg_types :: "func_t \<Rightarrow> bool" where
  "has_same_arg_types f = (case arg_types f of [] \<Rightarrow> True | t # ts \<Rightarrow> list_all (\<lambda>u. u = t) ts)"

subsection \<open>Errors and the device runtime\<close>

text \<open>
  \<^verbatim>\<open>TORCH_INTERNAL_ASSERT\<close> raises with the failed condition or the given message;
  \<^verbatim>\<open>AT_CUDA_CHECK\<close> raises with the error code the runtime reports.
\<close>

datatype error = Internal_Assert string | Cuda_Error nat

definition range_assert :: error where
  "range_assert = Internal_Assert ''N >= 0 && N <= std::numeric_limits<int32_t>::max()''"

definition vec_size_assert :: error where
  "vec_size_assert = Internal_Assert ''Unexpected vectorization size''"

text \<open>The kernel template a launch instantiates, with its template arguments.\<close>

datatype kernel_id =
    Legacy_elementwise_kernel int32 int32
  | Modern_elementwise_kernel int int32 int32

text \<open>One \<^verbatim>\<open>kernel<<<grid, block, 0, stream>>>(N, f, data)\<close>; the legacy kernel takes no data.\<close>

record kernel_launch =
  kernel :: kernel_id
  grid :: uint32
  block :: uint32
  arg_N :: int32
  arg_f :: func_t
  arg_data :: "address list"

text \<open>
  The state the host code acts on: the kernels enqueued on the current stream, the
  runtime's sticky last error (\<open>0\<close> is \<^verbatim>\<open>cudaSuccess\<close>), and the runtime's own, opaque
  answer to a launch request (the error code it records for it, \<open>0\<close> for none).
\<close>

record cuda_state =
  issued :: "kernel_launch list"
  last_error :: nat
  launch_error :: "kernel_launch \<Rightarrow> nat"

definition enqueue :: "kernel_launch \<Rightarrow> cuda_state \<Rightarrow> cuda_state" where
  "enqueue l s =
     s\<lparr>issued := issued s @ [l],
       last_error := (if launch_error s l = 0 then last_error s else launch_error s l)\<rparr>"

text \<open>\<^verbatim>\<open>cudaGetLastError()\<close> returns the last error and resets it.\<close>

definition cudaGetLastError :: "cuda_state \<Rightarrow> nat \<times> cuda_state" where
  "cudaGetLastError s = (last_error s, s\<lparr>last_error := 0\<rparr>)"

definition AT_CUDA_CHECK :: "nat \<times> cuda_state \<Rightarrow> (error + unit) \<times> cuda_state" where
  "AT_CUDA_CHECK r = (if fst r = 0 then (Inr (), snd r) else (Inl (Cuda_Error (fst r)), snd r))"

subsection \<open>Launch configuration\<close>

text \<open>
  \<^verbatim>\<open>dim3 block(nt); dim3 grid((N + block.x * vt - 1) / (block.x * vt));\<close>
  \<open>block.x * vt\<close> is an \<^verbatim>\<open>unsigned int\<close> product, widened to \<^verbatim>\<open>int64_t\<close> for the sum
  and the quotient with \<open>N\<close>; the quotient is narrowed to \<^verbatim>\<open>unsigned int\<close> by \<^verbatim>\<open>dim3\<close>.
\<close>

definition launch_block :: "int32 \<Rightarrow> uint32" where
  "launch_block nt = nt"

definition launch_grid :: "int32 \<Rightarrow> int32 \<Rightarrow> int64 \<Rightarrow> uint32" where
  "launch_grid nt vt N =
     ucast (div_int64 (N + ucast (launch_block nt * vt) - 1) (ucast (launch_block nt * vt)))"

subsection \<open>Namespace legacy\<close>

text \<open>
  An \<^verbatim>\<open>int\<close> sum or product that leaves the range of \<^verbatim>\<open>int\<close>: undefined behaviour.
\<close>

definition add_overflows :: "int32 \<Rightarrow> int32 \<Rightarrow> bool" where
  "add_overflows a b \<longleftrightarrow> sint a + sint b < - 2147483648 \<or> 2147483647 < sint a + sint b"

definition mul_overflows :: "int32 \<Rightarrow> int32 \<Rightarrow> bool" where
  "mul_overflows a b \<longleftrightarrow> sint a * sint b < - 2147483648 \<or> 2147483647 < sint a * sint b"

text \<open>
  The body of the \<^verbatim>\<open>for (int i = 0; i < vt; i++)\<close> loop of \<^verbatim>\<open>legacy::elementwise_kernel\<close>,
  run for the given number of remaining iterations. The result lists the indices
  on which \<open>f\<close> is invoked, in order. An iteration whose test \<^verbatim>\<open>idx < N\<close> fails does
  nothing and the loop goes on (there is no \<^verbatim>\<open>break\<close>). An iteration whose test holds
  calls \<open>f(idx)\<close> and then executes \<^verbatim>\<open>idx += nt\<close>; when that sum overflows the behaviour
  of the thread is undefined and the result is \<open>None\<close>.
\<close>

fun legacy_loop :: "nat \<Rightarrow> int32 \<Rightarrow> int32 \<Rightarrow> int32 \<Rightarrow> int32 list option" where
  "legacy_loop 0 nt N idx = Some []"
| "legacy_loop (Suc k) nt N idx =
     (if idx <s N
      then (if add_overflows idx nt then None
            else map_option (Cons idx) (legacy_loop k nt N (idx + nt)))
      else legacy_loop k nt N idx)"

text \<open>
  One thread of \<^verbatim>\<open>legacy::elementwise_kernel<nt, vt>\<close>: the calls \<open>f(idx)\<close> it makes.
  \<^verbatim>\<open>int nv = nt * vt\<close> is a signed product; \<^verbatim>\<open>nv * blockIdx.x + tid\<close> is computed in
  \<^verbatim>\<open>unsigned int\<close> and converted to \<^verbatim>\<open>int\<close>.
\<close>

definition legacy_elementwise_kernel ::
    "int32 \<Rightarrow> int32 \<Rightarrow> int32 \<Rightarrow> uint32 \<Rightarrow> uint32 \<Rightarrow> int32 list option" where
  "legacy_elementwise_kernel nt vt N blockIdx threadIdx =
     (if mul_overflows nt vt then None
      else
        let tid = threadIdx;
            nv = nt * vt;
            idx = nv * blockIdx + tid
        in legacy_loop (nat (sint vt)) nt N idx)"

text \<open>
  All calls of \<open>f\<close> made by a launch of the legacy kernel: every block
  \<open>blockIdx < gridDim\<close>, every thread \<open>threadIdx < blockDim\<close>. There is a result only
  when every thread has one.
\<close>

definition legacy_grid_calls ::
    "int32 \<Rightarrow> int32 \<Rightarrow> int32 \<Rightarrow> uint32 \<Rightarrow> uint32 \<Rightarrow> int32 list option" where
  "legacy_grid_calls nt vt N gridDim blockDim =
     map_option concat
       (those (map (\<lambda>b. map_option concat
                            (those (map (\<lambda>t. legacy_elementwise_kernel nt vt N (of_nat b) (of_nat t))
                                        [0..<unat blockDim])))
                   [0..<unat gridDim]))"

definition legacy_launch_kernel ::
    "int32 \<Rightarrow> int32 \<Rightarrow> int64 \<Rightarrow> func_t \<Rightarrow> cuda_state \<Rightarrow> (error + unit) \<times> cuda_state" where
  "legacy_launch_kernel nt vt N f s =
     (if \<not> (0 \<le>s N \<and> N \<le>s INT32_MAX) then (Inl range_assert, s)
      else if N = 0 then (Inr (), s)
      else
        let block = launch_block nt;
            grid = launch_grid nt vt N;
            s1 = enqueue \<lparr>kernel = Legacy_elementwise_kernel nt vt, grid = grid, block = block,
                          arg_N = ucast N, arg_f = f, arg_data = []\<rparr> s
        in AT_CUDA_CHECK (cudaGetLastError s1))"

subsection \<open>Namespace modern\<close>

text \<open>
  \<^verbatim>\<open>detail::can_vectorize_up_to<func_t>(pointers)\<close>. The per-pointer selector
  \<^verbatim>\<open>memory::can_vectorize_up_to<T>(pointer)\<close> is declared outside this file and is the
  parameter \<open>mem\<close>. The loop \<^verbatim>\<open>for (int i = 0; i < arity; i++)\<close> is \<open>can_vectorize_loop\<close>.
\<close>

function can_vectorize_loop ::
    "(ctype \<Rightarrow> address \<Rightarrow> int) \<Rightarrow> ctype \<Rightarrow> address list \<Rightarrow> nat \<Rightarrow> nat \<Rightarrow> int \<Rightarrow> int" where
  "can_vectorize_loop mem arg_t pointers ar i result =
     (if i < ar
      then can_vectorize_loop mem arg_t pointers ar (i + 1)
             (min result (mem arg_t (pointers ! (i + 1))))
      else result)"
  by pat_completeness auto
termination
  by (relation "measure (\<lambda>(mem, arg_t, pointers, ar, i, result). ar - i)") auto

declare can_vectorize_loop.simps [simp del]

definition can_vectorize_up_to :: "(ctype \<Rightarrow> address \<Rightarrow> int) \<Rightarrow> func_t \<Rightarrow> address list \<Rightarrow> int" where
  "can_vectorize_up_to mem f pointers =
     (let return_t = result_type f;
          arg_t = arg_type f;
          result = mem return_t (pointers ! 0)
      in can_vectorize_loop mem arg_t pointers (arity f) 0 result)"

text \<open>
  Modelled from the spec: \<^verbatim>\<open>memory::policies<num_threads, thread_work_size>\<close> is declared
  outside this file. The spec gives
  \<open>block_work_size = num_threads * thread_work_size\<close>, a compile-time \<^verbatim>\<open>int\<close>.
\<close>

definition block_work_size :: "int32 \<Rightarrow> int32 \<Rightarrow> int32" where
  "block_work_size num_threads thread_work_size = num_threads * thread_work_size"

text \<open>
  The two policy objects \<^verbatim>\<open>modern::elementwise_kernel\<close> can construct:
  \<^verbatim>\<open>policies::checked_unroll(remaining)\<close> and \<^verbatim>\<open>policies::vectorized<vec_size>()\<close>.
\<close>

datatype policy = Checked_unroll int32 | Vectorized int

text \<open>\<^verbatim>\<open>int remaining = N - policies::common::block_work_size * blockIdx.x;\<close>\<close>

definition remaining :: "int32 \<Rightarrow> int32 \<Rightarrow> int32 \<Rightarrow> uint32 \<Rightarrow> int32" where
  "remaining num_threads thread_work_size N blockIdx =
     N - block_work_size num_threads thread_work_size * blockIdx"

text \<open>
  One block of \<^verbatim>\<open>modern::elementwise_kernel<vec_size, num_threads, thread_work_size>\<close>:
  the policy it hands to \<^verbatim>\<open>elementwise_kernel_helper\<close>.
\<close>

definition modern_elementwise_kernel :: "int \<Rightarrow> int32 \<Rightarrow> int32 \<Rightarrow> int32 \<Rightarrow> uint32 \<Rightarrow> policy" where
  "modern_elementwise_kernel vec_size num_threads thread_work_size N blockIdx =
     (if remaining num_threads thread_work_size N blockIdx
           <s block_work_size num_threads thread_work_size
      then Checked_unroll (remaining num_threads thread_work_size N blockIdx)
      else Vectorized vec_size)"

text \<open>
  \<^verbatim>\<open>int idx = policy_t::block_work_size * blockIdx.x;\<close> in \<^verbatim>\<open>elementwise_kernel_helper\<close>:
  the first element of the block; the base pointers of the block are offset by it.
\<close>

definition helper_idx :: "int32 \<Rightarrow> int32 \<Rightarrow> uint32 \<Rightarrow> int32" where
  "helper_idx num_threads thread_work_size blockIdx =
     block_work_size num_threads thread_work_size * blockIdx"

text \<open>The overload of \<^verbatim>\<open>modern::launch_kernel\<close> enabled by \<^verbatim>\<open>has_same_arg_types\<close>.\<close>

definition modern_launch_kernel_same ::
    "(ctype \<Rightarrow> address \<Rightarrow> int) \<Rightarrow> int32 \<Rightarrow> int32 \<Rightarrow> int64 \<Rightarrow> func_t \<Rightarrow> address list \<Rightarrow>
     cuda_state \<Rightarrow> (error + unit) \<times> cuda_state" where
  "modern_launch_kernel_same mem nt vt N f data s =
     (if \<not> (0 \<le>s N \<and> N \<le>s INT32_MAX) then (Inl range_assert, s)
      else if N = 0 then (Inr (), s)
      else
        let block = launch_block nt;
            grid = launch_grid nt vt N;
            vec_size = can_vectorize_up_to mem f data;
            l = (\<lambda>v. \<lparr>kernel = Modern_elementwise_kernel v nt vt, grid = grid, block = block,
                       arg_N = ucast N, arg_f = f, arg_data = data\<rparr>)
        in if vec_size = 4 then AT_CUDA_CHECK (cudaGetLastError (enqueue (l 4) s))
           else if vec_size = 2 then AT_CUDA_CHECK (cudaGetLastError (enqueue (l 2) s))
           else if vec_size = 1 then AT_CUDA_CHECK (cudaGetLastError (enqueue (l 1) s))
           else (Inl vec_size_assert, s))"

text \<open>The overload enabled by \<^verbatim>\<open>!has_same_arg_types\<close>: its body is empty.\<close>

definition modern_launch_kernel_other ::
    "(ctype \<Rightarrow> address \<Rightarrow> int) \<Rightarrow> int32 \<Rightarrow> int32 \<Rightarrow> int64 \<Rightarrow> func_t \<Rightarrow> address list \<Rightarrow>
     cuda_state \<Rightarrow> (error + unit) \<times> cuda_state" where
  "modern_launch_kernel_other mem nt vt N f data s = (Inr (), s)"

text \<open>
  A call \<^verbatim>\<open>modern::launch_kernel<nt, vt>(N, f, data)\<close>: overload resolution picks the
  one template whose \<^verbatim>\<open>enable_if\<close> condition holds.
\<close>

definition modern_launch_kernel ::
    "(ctype \<Rightarrow> address \<Rightarrow> int) \<Rightarrow> int32 \<Rightarrow> int32 \<Rightarrow> int64 \<Rightarrow> func_t \<Rightarrow> address list \<Rightarrow>
     cuda_state \<Rightarrow> (error + unit) \<times> cuda_state" where
  "modern_launch_kernel mem nt vt N f data s =
     (if has_same_arg_types f then modern_launch_kernel_same mem nt vt N f data s
      else modern_launch_kernel_other mem nt vt N f data s)"

subsection \<open>Example inputs\<close>

text \<open>
  A function \<^verbatim>\<open>float(float, int)\<close>, whose argument types differ; a per-pointer selector
  that answers 4 everywhere; a runtime that reports no launch error, with an empty
  stream.
\<close>

definition example_mixed_f :: func_t where
  "example_mixed_f = \<lparr>arg_types = [C_float, C_int32], result_type = C_float\<rparr>"

definition example_selector :: "ctype \<Rightarrow> address \<Rightarrow> int" where
  "example_selector t p = 4"

definition no_launch_error :: "kernel_launch \<Rightarrow> nat" where
  "no_launch_error l = 0"

definition example_state :: cuda_state where
  "example_state = \<lparr>issued = [], last_error = 0, launch_error = no_launch_error\<rparr>"

section \<open>Facts about the integer ranges\<close>

lemma sint_INT32_MAX: "sint INT32_MAX = 2147483647"
  by (simp add: INT32_MAX_def)

lemma zero_sle_INT32_MAX: "0 \<le>s INT32_MAX"
  by (simp add: word_sle_eq sint_INT32_MAX)

lemma uint_eq_sint_nonneg:
  fixes w :: "'a::len word"
  assumes "0 \<le> sint w"
  shows "uint w = sint w"
proof -
  have "sint w < 2 ^ (LENGTH('a) - Suc 0)" by (rule sint_less)
  also have "\<dots> \<le> (2::int) ^ LENGTH('a)" by (rule power_increasing) simp_all
  finally have "sint w < 2 ^ LENGTH('a)" .
  with assms show ?thesis by (simp add: uint_sint take_bit_int_eq_self)
qed

lemma sint_eq_uint_small:
  fixes w :: "'a::len word"
  assumes "uint w < 2 ^ (LENGTH('a) - Suc 0)"
  shows "sint w = uint w"
proof -
  have "- (2 ^ (LENGTH('a) - Suc 0)) \<le> (0::int)" by simp
  also have "\<dots> \<le> uint w" by (rule uint_nonnegative)
  finally have "signed_take_bit (LENGTH('a) - Suc 0) (uint w) = uint w"
    using assms by (rule signed_take_bit_int_eq_self)
  then show ?thesis by (simp add: sint_uint)
qed

text \<open>Narrowing an in-range \<^verbatim>\<open>int64_t N\<close> to the kernel's \<^verbatim>\<open>int N\<close> keeps its value.\<close>

lemma sint_ucast_in_range:
  fixes N :: int64
  assumes "0 \<le>s N" "N \<le>s INT32_MAX"
  shows "sint (ucast N :: int32) = sint N"
proof -
  from assms have r: "0 \<le> sint N" "sint N \<le> 2147483647"
    by (simp_all add: word_sle_eq sint_INT32_MAX)
  then have u: "uint N = sint N" by (simp add: uint_eq_sint_nonneg)
  have "sint (ucast N :: int32) = signed_take_bit 31 (uint N)"
    by (simp add: signed_ucast_eq)
  also have "\<dots> = uint N" using r u by (simp add: signed_take_bit_int_eq_self)
  finally show ?thesis using u by simp
qed

lemma in_range_iff: "(0 \<le>s N \<and> N \<le>s INT32_MAX) \<longleftrightarrow> \<not> (N <s 0 \<or> INT32_MAX <s N)"
  by (auto simp: word_sle_eq word_sless_alt)

text \<open>
  The launch configuration in plain integers. The template arguments \<open>nt\<close> and \<open>vt\<close> are
  positive and their product, the compile-time \<^verbatim>\<open>int\<close> block work size, is representable.
\<close>

lemma uint_block_work_size:
  assumes "0 <s nt" "0 <s vt" "sint nt * sint vt \<le> 2147483647"
  shows "uint (nt * vt :: int32) = sint nt * sint vt"
proof -
  from assms have p: "0 \<le> sint nt" "0 \<le> sint vt" by (simp_all add: word_sless_alt)
  then have u: "uint nt = sint nt" "uint vt = sint vt" by (simp_all add: uint_eq_sint_nonneg)
  have "uint nt * uint vt < 2 ^ LENGTH(32)" using assms(3) u by simp
  then have "uint (nt * vt) = uint nt * uint vt" by (simp only: uint_mult_lem)
  with u show ?thesis by simp
qed

lemma block_work_size_pos:
  assumes "0 <s nt" "0 <s vt"
  shows "0 < sint nt * sint vt"
  using assms by (simp add: word_sless_alt)

lemma sint_block_work_size:
  assumes "0 <s nt" "0 <s vt" "sint nt * sint vt \<le> 2147483647"
  shows "sint (block_work_size nt vt) = sint nt * sint vt"
proof -
  have "uint (nt * vt) < 2 ^ (LENGTH(32) - Suc 0)"
    using assms by (simp add: uint_block_work_size)
  then have "sint (nt * vt) = uint (nt * vt)" by (rule sint_eq_uint_small)
  with assms show ?thesis by (simp add: block_work_size_def uint_block_work_size)
qed

text \<open>The grid is the rounded-up quotient, computed without any wrap-around.\<close>

lemma uint_launch_grid:
  assumes "0 <s nt" "0 <s vt" "sint nt * sint vt \<le> 2147483647"
    and "0 <s N" "N \<le>s INT32_MAX"
  shows "uint (launch_grid nt vt N) = (sint N + sint nt * sint vt - 1) div (sint nt * sint vt)"
proof -
  define nv where "nv = sint nt * sint vt"
  define n where "n = sint N"
  have nv: "0 < nv" "nv \<le> 2147483647"
    using assms(1-3) by (simp_all add: nv_def word_sless_alt)
  have n: "0 < n" "n \<le> 2147483647"
    using assms(4,5) by (simp_all add: n_def word_sless_alt word_sle_eq sint_INT32_MAX)
  have uN: "uint N = n" using n by (simp add: n_def uint_eq_sint_nonneg)
  let ?m = "ucast (nt * vt) :: int64"
  have um: "uint ?m = nv"
    using assms(1-3) by (simp add: uint_up_ucast is_up nv_def uint_block_work_size)
  have "uint N + uint ?m < 2 ^ LENGTH(64)" using uN um n nv by simp
  then have "uint (N + ?m) = uint N + uint ?m" by (simp only: uint_add_lem)
  then have s1: "uint (N + ?m) = n + nv" using uN um by simp
  have "uint (1 :: int64) \<le> uint (N + ?m)" using s1 n nv by simp
  then have "uint (N + ?m - 1) = uint (N + ?m) - uint (1 :: int64)" by (simp only: uint_sub_lem)
  then have s2: "uint (N + ?m - 1) = n + nv - 1" using s1 by simp
  have "uint (N + ?m - 1) < 2 ^ (LENGTH(64) - Suc 0)" using s2 n nv by simp
  then have "sint (N + ?m - 1) = uint (N + ?m - 1)" by (rule sint_eq_uint_small)
  then have num: "sint (N + ?m - 1) = n + nv - 1" using s2 by simp
  have "uint ?m < 2 ^ (LENGTH(64) - Suc 0)" using um nv by simp
  then have "sint ?m = uint ?m" by (rule sint_eq_uint_small)
  then have den: "sint ?m = nv" using um by simp
  define q where "q = (n + nv - 1) div nv"
  have sd: "(n + nv - 1) sdiv nv = q"
    using n nv by (simp add: signed_divide_int_def q_def)
  have q0: "0 \<le> q" using n nv by (simp add: q_def pos_imp_zdiv_nonneg_iff)
  have "q \<le> n + nv - 1" unfolding q_def using n nv by (intro int_div_le_self) simp
  then have q1: "q < 4294967296" using n nv by simp
  have "uint (launch_grid nt vt N) = take_bit 32 (uint (word_of_int q :: int64))"
    by (simp add: launch_grid_def launch_block_def div_int64_def num den sd unsigned_ucast_eq)
  also have "uint (word_of_int q :: int64) = q"
    using q0 q1 by (simp add: uint_word_of_int_eq take_bit_int_eq_self)
  also have "take_bit 32 q = q" using q0 q1 by (simp add: take_bit_int_eq_self)
  finally show ?thesis by (simp add: q_def n_def nv_def)
qed

text \<open>Rounded-up division: the last block starts before \<open>n\<close>, and the grid covers \<open>n\<close>.\<close>

lemma ceil_div_bounds:
  fixes n nv :: int
  assumes "0 < nv"
  shows "nv * ((n + nv - 1) div nv - 1) < n" and "n \<le> nv * ((n + nv - 1) div nv)"
proof -
  define q where "q = (n + nv - 1) div nv"
  define r where "r = (n + nv - 1) mod nv"
  have e: "nv * q + r = n + nv - 1"
    unfolding q_def r_def by (rule mult_div_mod_eq)
  have r: "0 \<le> r" "r < nv"
    using assms by (simp_all add: r_def)
  have d: "nv * (q - 1) = nv * q - nv" by (simp add: algebra_simps)
  show "nv * ((n + nv - 1) div nv - 1) < n" using e r d unfolding q_def [symmetric] by linarith
  show "n \<le> nv * ((n + nv - 1) div nv)" using e r unfolding q_def [symmetric] by linarith
qed

lemma block_start_in_range:
  assumes "0 <s nt" "0 <s vt" "sint nt * sint vt \<le> 2147483647"
    and "0 <s N" "N \<le>s INT32_MAX"
    and "blockIdx < launch_grid nt vt N"
  shows "sint nt * sint vt * uint blockIdx < sint N"
proof -
  define nv where "nv = sint nt * sint vt"
  have nv: "0 < nv" using assms(1,2) by (simp add: nv_def word_sless_alt)
  from assms have "uint blockIdx < (sint N + nv - 1) div nv"
    by (simp add: word_less_def uint_launch_grid nv_def)
  then have "uint blockIdx \<le> (sint N + nv - 1) div nv - 1" by simp
  then have "nv * uint blockIdx \<le> nv * ((sint N + nv - 1) div nv - 1)"
    using nv by (intro mult_left_mono) simp_all
  also have "\<dots> < sint N" using nv by (rule ceil_div_bounds)
  finally show ?thesis by (simp add: nv_def)
qed

lemma uint_block_start:
  assumes "0 <s nt" "0 <s vt" "sint nt * sint vt \<le> 2147483647"
    and "0 <s N" "N \<le>s INT32_MAX"
    and "blockIdx < launch_grid nt vt N"
  shows "uint (nt * vt * blockIdx) = sint nt * sint vt * uint blockIdx"
proof -
  have "sint nt * sint vt * uint blockIdx < sint N" using assms by (rule block_start_in_range)
  moreover have "sint N \<le> 2147483647"
    using assms(5) by (simp add: word_sle_eq sint_INT32_MAX)
  ultimately have "uint (nt * vt) * uint blockIdx < 2 ^ LENGTH(32)"
    using assms(1-3) by (simp add: uint_block_work_size)
  then have "uint (nt * vt * blockIdx) = uint (nt * vt) * uint blockIdx"
    by (simp only: uint_mult_lem)
  then show ?thesis using assms(1-3) by (simp add: uint_block_work_size)
qed

lemma sint_helper_idx:
  assumes "0 <s nt" "0 <s vt" "sint nt * sint vt \<le> 2147483647"
    and "0 <s N" "N \<le>s INT32_MAX"
    and "blockIdx < launch_grid nt vt N"
  shows "sint (helper_idx nt vt blockIdx) = sint nt * sint vt * uint blockIdx"
proof -
  have "sint nt * sint vt * uint blockIdx < sint N" using assms by (rule block_start_in_range)
  moreover have "sint N \<le> 2147483647"
    using assms(5) by (simp add: word_sle_eq sint_INT32_MAX)
  ultimately have "uint (nt * vt * blockIdx) < 2 ^ (LENGTH(32) - Suc 0)"
    using assms by (simp add: uint_block_start)
  then have "sint (nt * vt * blockIdx) = uint (nt * vt * blockIdx)" by (rule sint_eq_uint_small)
  then show ?thesis using assms by (simp add: helper_idx_def block_work_size_def uint_block_start)
qed

lemma sint_remaining:
  assumes "0 <s nt" "0 <s vt" "sint nt * sint vt \<le> 2147483647"
    and "0 <s N" "N \<le>s INT32_MAX"
    and "blockIdx < launch_grid nt vt N"
  shows "sint (remaining nt vt (ucast N) blockIdx) = sint N - sint nt * sint vt * uint blockIdx"
proof -
  define x where "x = sint nt * sint vt * uint blockIdx"
  have nv: "0 < sint nt * sint vt" using assms(1,2) by (simp add: word_sless_alt)
  have x0: "0 \<le> x" using nv by (simp add: x_def)
  have xn: "x < sint N" unfolding x_def using assms by (rule block_start_in_range)
  have n: "sint N \<le> 2147483647" "0 \<le>s N"
    using assms(4,5) by (simp_all add: word_sle_eq word_sless_alt sint_INT32_MAX)
  have sN: "sint (ucast N :: int32) = sint N" using n(2) assms(5) by (rule sint_ucast_in_range)
  have "0 \<le> sint (ucast N :: int32)" using sN xn x0 by simp
  then have "uint (ucast N :: int32) = sint (ucast N :: int32)" by (rule uint_eq_sint_nonneg)
  then have uN: "uint (ucast N :: int32) = sint N" using sN by simp
  have ux: "uint (nt * vt * blockIdx) = x" unfolding x_def using assms by (rule uint_block_start)
  have "uint (nt * vt * blockIdx) \<le> uint (ucast N :: int32)" using ux uN xn by simp
  then have "uint (ucast N - nt * vt * blockIdx :: int32) = uint (ucast N :: int32) - uint (nt * vt * blockIdx)"
    by (simp only: uint_sub_lem)
  then have d: "uint (ucast N - nt * vt * blockIdx :: int32) = sint N - x" using ux uN by simp
  then have "uint (ucast N - nt * vt * blockIdx :: int32) < 2 ^ (LENGTH(32) - Suc 0)"
    using x0 n by simp
  then have "sint (ucast N - nt * vt * blockIdx :: int32) = uint (ucast N - nt * vt * blockIdx :: int32)"
    by (rule sint_eq_uint_small)
  then show ?thesis using d by (simp add: remaining_def block_work_size_def x_def)
qed

section \<open>Facts about the device runtime\<close>

lemma range_assert_neq [simp]:
  "range_assert \<noteq> vec_size_assert" "vec_size_assert \<noteq> range_assert"
  "range_assert \<noteq> Cuda_Error e" "Cuda_Error e \<noteq> range_assert"
  by (simp_all add: range_assert_def vec_size_assert_def)

lemma fst_AT_CUDA_CHECK_neq_range [simp]: "fst (AT_CUDA_CHECK r) \<noteq> Inl range_assert"
  by (simp add: AT_CUDA_CHECK_def)

lemma issued_launched [simp]:
  "issued (snd (AT_CUDA_CHECK (cudaGetLastError (enqueue l s)))) = issued s @ [l]"
  by (simp add: AT_CUDA_CHECK_def cudaGetLastError_def enqueue_def)

section \<open>Launching nothing\<close>

text \<open>
  C2. A launch with \<open>N = 0\<close>, legacy or modern, for any function and any data pointers,
  returns normally and leaves the state as it was: no kernel is enqueued and the
  runtime's last error is not even queried.
\<close>

theorem C2_zero_launch_is_noop:
  "legacy_launch_kernel nt vt 0 f s = (Inr (), s)
   \<and> modern_launch_kernel mem nt vt 0 f data s = (Inr (), s)"
  by (simp add: legacy_launch_kernel_def modern_launch_kernel_def modern_launch_kernel_same_def
      modern_launch_kernel_other_def zero_sle_INT32_MAX)

section \<open>The range assertion\<close>

text \<open>
  C3, as stated, fails for the modern launch of a function with mixed argument types:
  with \<open>N = -1\<close> the call resolves to the overload with the empty body and returns
  normally, with no assertion.
\<close>

theorem C3_mixed_types_counterexample:
  "(- 1 :: int64) <s 0
   \<and> \<not> has_same_arg_types example_mixed_f
   \<and> modern_launch_kernel example_selector 128 4 (- 1) example_mixed_f [0, 16, 32] example_state
       = (Inr (), example_state)"
  by (simp add: modern_launch_kernel_def modern_launch_kernel_other_def has_same_arg_types_def
      example_mixed_f_def word_sless_alt)

text \<open>
  C3, amended. The legacy launch function, for every function, and the modern one for a
  function whose argument types are all the same, start with the assertion
  \<open>0 \<le> N \<le> INT32_MAX\<close>. When \<open>N\<close> is outside that range the call raises the assertion
  and the state is untouched: nothing was enqueued. When \<open>N\<close> is inside, the range
  assertion is not raised: the legacy function raises no assertion at all, the modern one
  only the assertion on the vectorization width, for a width other than 4, 2 and 1. Every
  kernel a call enqueues receives an \<^verbatim>\<open>int N\<close> whose value is the value of the
  \<^verbatim>\<open>int64_t N\<close>: the narrowing loses nothing. For a function with mixed argument types
  the modern launch function raises nothing and does nothing, whatever \<open>N\<close> is.
\<close>

theorem C3_range_assertion:
  "(N <s 0 \<or> INT32_MAX <s N \<longrightarrow>
      legacy_launch_kernel nt vt N f s = (Inl range_assert, s)
    \<and> (has_same_arg_types f \<longrightarrow>
          modern_launch_kernel mem nt vt N f data s = (Inl range_assert, s)))
   \<and> (\<not> (N <s 0 \<or> INT32_MAX <s N) \<longrightarrow>
      (\<forall>m. fst (legacy_launch_kernel nt vt N f s) \<noteq> Inl (Internal_Assert m))
    \<and> fst (modern_launch_kernel mem nt vt N f data s) \<noteq> Inl range_assert
    \<and> (\<forall>m. fst (modern_launch_kernel mem nt vt N f data s) = Inl (Internal_Assert m)
           \<longrightarrow> Internal_Assert m = vec_size_assert
             \<and> can_vectorize_up_to mem f data \<notin> {4, 2, 1})
    \<and> (\<forall>l. l \<in> set (issued (snd (legacy_launch_kernel nt vt N f s)))
           \<or> l \<in> set (issued (snd (modern_launch_kernel mem nt vt N f data s)))
           \<longrightarrow> l \<in> set (issued s) \<or> sint (arg_N l) = sint N))
   \<and> (\<not> has_same_arg_types f \<longrightarrow> modern_launch_kernel mem nt vt N f data s = (Inr (), s))"
proof -
  have mixed: "modern_launch_kernel mem nt vt N f data s = (Inr (), s)"
    if "\<not> has_same_arg_types f"
    using that by (simp add: modern_launch_kernel_def modern_launch_kernel_other_def)
  show ?thesis
  proof (cases "N <s 0 \<or> INT32_MAX <s N")
    case True
    then have "\<not> (0 \<le>s N \<and> N \<le>s INT32_MAX)" by (simp add: in_range_iff)
    with True mixed show ?thesis
      by (simp add: legacy_launch_kernel_def modern_launch_kernel_def modern_launch_kernel_same_def)
  next
    case False
    then have r: "0 \<le>s N" "N \<le>s INT32_MAX" using in_range_iff [of N] by simp_all
    then have n: "sint (ucast N :: int32) = sint N" by (rule sint_ucast_in_range)
    from r have leg: "fst (legacy_launch_kernel nt vt N f s) \<noteq> Inl (Internal_Assert m)" for m
      by (simp add: legacy_launch_kernel_def Let_def AT_CUDA_CHECK_def)
    from r have mod: "fst (modern_launch_kernel mem nt vt N f data s) \<noteq> Inl range_assert"
      by (simp add: modern_launch_kernel_def modern_launch_kernel_same_def
          modern_launch_kernel_other_def Let_def)
    have modA: "Internal_Assert m = vec_size_assert \<and> can_vectorize_up_to mem f data \<notin> {4, 2, 1}"
      if "fst (modern_launch_kernel mem nt vt N f data s) = Inl (Internal_Assert m)" for m
      using that r
      by (auto simp: modern_launch_kernel_def modern_launch_kernel_same_def
          modern_launch_kernel_other_def Let_def AT_CUDA_CHECK_def split: if_splits)
    have legN: "l \<in> set (issued s) \<or> sint (arg_N l) = sint N"
      if "l \<in> set (issued (snd (legacy_launch_kernel nt vt N f s)))" for l
      using that r n by (auto simp: legacy_launch_kernel_def Let_def split: if_splits)
    have modN: "l \<in> set (issued s) \<or> sint (arg_N l) = sint N"
      if "l \<in> set (issued (snd (modern_launch_kernel mem nt vt N f data s)))" for l
      using that r n
      by (auto simp: modern_launch_kernel_def modern_launch_kernel_same_def
          modern_launch_kernel_other_def Let_def split: if_splits)
    from False leg mod modA legN modN mixed show ?thesis by blast
  qed
qed

theorem C3_range_assertion_witness:
  "has_same_arg_types \<lparr>arg_types = [C_float, C_float], result_type = C_bool\<rparr>
   \<and> \<not> has_same_arg_types example_mixed_f
   \<and> legacy_launch_kernel 128 4 2147483648 example_mixed_f example_state
       = (Inl range_assert, example_state)
   \<and> modern_launch_kernel example_selector 128 4 2147483648
         \<lparr>arg_types = [C_float, C_float], result_type = C_bool\<rparr> [0, 16, 32] example_state
       = (Inl range_assert, example_state)
   \<and> fst (legacy_launch_kernel 128 4 2147483647 example_mixed_f example_state)
       \<noteq> Inl vec_size_assert
   \<and> fst (modern_launch_kernel example_selector 128 4 2147483647
         \<lparr>arg_types = [C_float, C_float], result_type = C_bool\<rparr> [0, 16, 32] example_state)
       \<noteq> Inl range_assert
   \<and> modern_launch_kernel example_selector 128 4 2147483648 example_mixed_f [0, 16, 32]
         example_state = (Inr (), example_state)"
proof -
  have h: "has_same_arg_types \<lparr>arg_types = [C_float, C_float], result_type = C_bool\<rparr>"
    by (simp add: has_same_arg_types_def)
  have x: "\<not> has_same_arg_types example_mixed_f"
    by (simp add: has_same_arg_types_def example_mixed_f_def)
  have out: "(2147483648 :: int64) <s 0 \<or> INT32_MAX <s 2147483648"
    by (simp add: INT32_MAX_def word_sless_alt)
  have inside: "\<not> ((2147483647 :: int64) <s 0 \<or> INT32_MAX <s 2147483647)"
    by (simp add: INT32_MAX_def word_sless_alt)
  show ?thesis
    using h x out inside
      C3_range_assertion [of 2147483648 128 4 example_mixed_f example_state example_selector
        "[0, 16, 32]"]
      C3_range_assertion [of 2147483648 128 4
        "\<lparr>arg_types = [C_float, C_float], result_type = C_bool\<rparr>" example_state
        example_selector "[0, 16, 32]"]
      C3_range_assertion [of 2147483647 128 4 example_mixed_f example_state example_selector
        "[0, 16, 32]"]
      C3_range_assertion [of 2147483647 128 4
        "\<lparr>arg_types = [C_float, C_float], result_type = C_bool\<rparr>" example_state
        example_selector "[0, 16, 32]"]
    by (simp add: vec_size_assert_def)
qed

section \<open>Functions with mixed argument types\<close>

text \<open>
  C8. For a function whose argument types are not all the same, the call
  \<^verbatim>\<open>modern::launch_kernel\<close> resolves to the overload with the empty body: for any
  \<open>N\<close> (in range or not) and any data pointers it returns normally, raises nothing and
  leaves the state as it was, so no kernel is enqueued.
\<close>

theorem C8_mixed_types_is_noop:
  "\<not> has_same_arg_types f \<Longrightarrow> modern_launch_kernel mem nt vt N f data s = (Inr (), s)"
  by (simp add: modern_launch_kernel_def modern_launch_kernel_other_def)

theorem C8_mixed_types_is_noop_witness:
  "\<not> has_same_arg_types \<lparr>arg_types = [C_float, C_int32], result_type = C_float\<rparr>
   \<and> modern_launch_kernel (\<lambda>t p. 4) 128 4 (- 1)
        \<lparr>arg_types = [C_float, C_int32], result_type = C_float\<rparr> [0, 16, 32]
        \<lparr>issued = [], last_error = 0, launch_error = (\<lambda>l. 0)\<rparr>
      = (Inr (), \<lparr>issued = [], last_error = 0, launch_error = (\<lambda>l. 0)\<rparr>)"
proof -
  have h: "\<not> has_same_arg_types \<lparr>arg_types = [C_float, C_int32], result_type = C_float\<rparr>"
    by (simp add: has_same_arg_types_def)
  show ?thesis using h C8_mixed_types_is_noop [OF h] by simp
qed

section \<open>The vectorization width\<close>

text \<open>The loop of the selector computes a minimum; its equation is unfolded by hand.\<close>

lemma can_vectorize_loop_le_result:
  "can_vectorize_loop mem t ps ar i r \<le> r"
proof (induction mem t ps ar i r rule: can_vectorize_loop.induct)
  case (1 mem t ps ar i r)
  show ?case
  proof (cases "i < ar")
    case True
    with "1" have "can_vectorize_loop mem t ps ar (i + 1) (min r (mem t (ps ! (i + 1))))
        \<le> min r (mem t (ps ! (i + 1)))" by simp
    with True show ?thesis by (subst can_vectorize_loop.simps) simp
  next
    case False
    then show ?thesis by (subst can_vectorize_loop.simps) simp
  qed
qed

lemma can_vectorize_loop_le_pointer:
  "i \<le> j \<Longrightarrow> j < ar \<Longrightarrow> can_vectorize_loop mem t ps ar i r \<le> mem t (ps ! (j + 1))"
proof (induction mem t ps ar i r rule: can_vectorize_loop.induct)
  case (1 mem t ps ar i r)
  from "1.prems" have lt: "i < ar" by simp
  show ?case
  proof (cases "i = j")
    case True
    have "can_vectorize_loop mem t ps ar (i + 1) (min r (mem t (ps ! (i + 1))))
        \<le> min r (mem t (ps ! (i + 1)))" by (rule can_vectorize_loop_le_result)
    with True lt show ?thesis by (subst can_vectorize_loop.simps) simp
  next
    case False
    with "1.prems" have "i + 1 \<le> j" by simp
    with "1.IH" lt "1.prems" show ?thesis by (subst can_vectorize_loop.simps) simp
  qed
qed

lemma can_vectorize_loop_mem:
  "can_vectorize_loop mem t ps ar i r \<in> insert r ((\<lambda>j. mem t (ps ! (j + 1))) ` {i..<ar})"
proof (induction mem t ps ar i r rule: can_vectorize_loop.induct)
  case (1 mem t ps ar i r)
  show ?case
  proof (cases "i < ar")
    case True
    let ?x = "mem t (ps ! (i + 1))"
    from "1" True have "can_vectorize_loop mem t ps ar (i + 1) (min r ?x)
        \<in> insert (min r ?x) ((\<lambda>j. mem t (ps ! (j + 1))) ` {i + 1..<ar})" by simp
    moreover have "min r ?x = r \<or> min r ?x = ?x" by (simp add: min_def)
    moreover have "{i..<ar} = insert i {i + 1..<ar}" using True by auto
    ultimately have "can_vectorize_loop mem t ps ar (i + 1) (min r ?x)
        \<in> insert r ((\<lambda>j. mem t (ps ! (j + 1))) ` {i..<ar})" by auto
    with True show ?thesis by (subst can_vectorize_loop.simps) simp
  next
    case False
    then show ?thesis by (subst can_vectorize_loop.simps) simp
  qed
qed

lemma can_vectorize_loop_Min:
  "can_vectorize_loop mem t ps ar i r = Min (insert r ((\<lambda>j. mem t (ps ! (j + 1))) ` {i..<ar}))"
proof (rule Min_eqI [symmetric])
  show "finite (insert r ((\<lambda>j. mem t (ps ! (j + 1))) ` {i..<ar}))" by simp
  show "can_vectorize_loop mem t ps ar i r \<in> insert r ((\<lambda>j. mem t (ps ! (j + 1))) ` {i..<ar})"
    by (rule can_vectorize_loop_mem)
  fix y assume "y \<in> insert r ((\<lambda>j. mem t (ps ! (j + 1))) ` {i..<ar})"
  then consider "y = r" | j where "i \<le> j" "j < ar" "y = mem t (ps ! (j + 1))"
    by auto
  then show "can_vectorize_loop mem t ps ar i r \<le> y"
  proof cases
    case 1
    then show ?thesis using can_vectorize_loop_le_result [of mem t ps ar i r] by simp
  next
    case 2
    then show ?thesis using can_vectorize_loop_le_pointer [of i j ar mem t ps r] by simp
  qed
qed

lemma same_arg_types_nth:
  assumes "has_same_arg_types f" "i < arity f"
  shows "arg_types f ! i = arg_type f"
proof (cases "arg_types f")
  case Nil
  with assms show ?thesis by (simp add: arity_def)
next
  case (Cons t ts)
  with assms show ?thesis
    by (cases i) (simp_all add: has_same_arg_types_def arg_type_def arity_def list_all_length)
qed

text \<open>
  C4. For a function of arity \<open>k\<close> and the pointer array \<open>out # ins\<close> (the output pointer,
  then the \<open>k\<close> input pointers), \<^verbatim>\<open>detail::can_vectorize_up_to\<close> is the minimum of the
  width of the output pointer for the return type and the widths of the input pointers
  for the argument type (the type of argument 0, which under \<open>has_same_arg_types\<close> is
  the type of every argument). So it exceeds the width of no single tensor.
\<close>

theorem C4_min_over_pointers:
  assumes "length ins = arity f"
  shows "can_vectorize_up_to mem f (out # ins)
           = Min (insert (mem (result_type f) out) (mem (arg_type f) ` set ins))
       \<and> can_vectorize_up_to mem f (out # ins) \<le> mem (result_type f) out
       \<and> (\<forall>i < arity f. can_vectorize_up_to mem f (out # ins) \<le> mem (arg_type f) (ins ! i))
       \<and> (has_same_arg_types f \<longrightarrow> (\<forall>i < arity f. arg_type f = arg_types f ! i))"
proof -
  have img: "(\<lambda>j. mem (arg_type f) (ins ! j)) ` {0..<arity f} = mem (arg_type f) ` set ins"
  proof -
    have "set ins = (\<lambda>j. ins ! j) ` {0..<length ins}"
      by (auto simp: set_conv_nth)
    then show ?thesis using assms by (simp add: image_image)
  qed
  have eq: "can_vectorize_up_to mem f (out # ins)
           = Min (insert (mem (result_type f) out) (mem (arg_type f) ` set ins))"
    by (simp add: can_vectorize_up_to_def can_vectorize_loop_Min img)
  have fin: "finite (insert (mem (result_type f) out) (mem (arg_type f) ` set ins))" by simp
  have "can_vectorize_up_to mem f (out # ins) \<le> mem (arg_type f) (ins ! i)" if "i < arity f" for i
  proof -
    from that assms have "ins ! i \<in> set ins" by simp
    then show ?thesis using eq Min_le [OF fin] by auto
  qed
  moreover have "can_vectorize_up_to mem f (out # ins) \<le> mem (result_type f) out"
    using eq Min_le [OF fin] by auto
  ultimately show ?thesis using eq by (simp add: same_arg_types_nth)
qed

theorem C4_min_over_pointers_witness:
  "length [8, 32 :: address] = arity \<lparr>arg_types = [C_float, C_float], result_type = C_bool\<rparr>
   \<and> can_vectorize_up_to (\<lambda>t p. if p = 8 then 2 else 4)
        \<lparr>arg_types = [C_float, C_float], result_type = C_bool\<rparr> [16, 8, 32] = 2
   \<and> has_same_arg_types \<lparr>arg_types = [C_float, C_float], result_type = C_bool\<rparr>"
proof -
  have h: "length [8, 32 :: address] = arity \<lparr>arg_types = [C_float, C_float], result_type = C_bool\<rparr>"
    by (simp add: arity_def)
  have s: "has_same_arg_types \<lparr>arg_types = [C_float, C_float], result_type = C_bool\<rparr>"
    by (simp add: has_same_arg_types_def)
  show ?thesis
    using h s C4_min_over_pointers [OF h, of "\<lambda>t p. if p = 8 then 2 else 4" 16]
    by simp
qed

text \<open>
  C10. For a nullary function the loop over the inputs runs zero times: the selected
  width is the width of \<open>pointers[0]\<close> for the return type. Any other selector and any
  other pointer array that agree on that one query give the same width, so neither another
  pointer nor the selector's answer for the placeholder type \<open>Dont_care\<close> (which is the
  argument type here) has any influence.
\<close>

theorem C10_nullary_uses_output_only:
  assumes "arity f = 0"
  shows "can_vectorize_up_to mem f pointers = mem (result_type f) (pointers ! 0)
       \<and> (\<forall>mem' pointers'. mem' (result_type f) (pointers' ! 0) = mem (result_type f) (pointers ! 0)
            \<longrightarrow> can_vectorize_up_to mem' f pointers' = can_vectorize_up_to mem f pointers)
       \<and> arg_type f = Dont_care"
  using assms
  by (simp add: can_vectorize_up_to_def can_vectorize_loop.simps arity_def arg_type_def)

theorem C10_nullary_uses_output_only_witness:
  "arity \<lparr>arg_types = [], result_type = C_float\<rparr> = 0
   \<and> can_vectorize_up_to (\<lambda>t p. if t = Dont_care then 1 else if p = 8 then 2 else 4)
        \<lparr>arg_types = [], result_type = C_float\<rparr> [8] = 2
   \<and> can_vectorize_up_to (\<lambda>t p. if p = 8 then 2 else 1)
        \<lparr>arg_types = [], result_type = C_float\<rparr> [8, 3, 5] = 2"
proof -
  have h: "arity \<lparr>arg_types = [], result_type = C_float\<rparr> = 0"
    by (simp add: arity_def)
  show ?thesis
    using h
      C10_nullary_uses_output_only [OF h,
        of "\<lambda>t p. if t = Dont_care then 1 else if p = 8 then 2 else 4" "[8]"]
    by simp
qed

section \<open>Dispatch on the vectorization width\<close>

text \<open>
  C5. In the overload of \<^verbatim>\<open>modern::launch_kernel\<close> that has a body, with \<open>N\<close> in
  \<open>[1, INT32_MAX]\<close>: when the selected width is 4, 2 or 1 the kernel enqueued is the
  specialization of exactly that width, with the grid and block computed before. For any
  other selected width the call raises \<^verbatim>\<open>Unexpected vectorization size\<close> and the state is
  untouched: of the two outcomes the specification names for such a width (a fallback to
  width 1, or that error) the code always takes the error. In every case a kernel the call
  enqueues has a width in \<open>{1, 2, 4}\<close>.
\<close>

theorem C5_width_dispatch:
  assumes "has_same_arg_types f" and "0 <s N" and "N \<le>s INT32_MAX"
  shows "(can_vectorize_up_to mem f data \<in> {4, 2, 1} \<longrightarrow>
            issued (snd (modern_launch_kernel mem nt vt N f data s))
              = issued s @ [\<lparr>kernel = Modern_elementwise_kernel (can_vectorize_up_to mem f data) nt vt,
                              grid = launch_grid nt vt N, block = launch_block nt,
                              arg_N = ucast N, arg_f = f, arg_data = data\<rparr>])
       \<and> (can_vectorize_up_to mem f data \<notin> {4, 2, 1} \<longrightarrow>
            modern_launch_kernel mem nt vt N f data s = (Inl vec_size_assert, s))
       \<and> (\<forall>l \<in> set (issued (snd (modern_launch_kernel mem nt vt N f data s))).
            l \<in> set (issued s)
            \<or> (\<exists>w \<in> {1, 2, 4}. kernel l = Modern_elementwise_kernel w nt vt))"
proof -
  from assms(2) have nz: "N \<noteq> 0" by auto
  from assms(2) have nn: "0 \<le>s N" by (simp add: word_sle_eq word_sless_alt)
  show ?thesis
    using assms(1,3) nz nn
    by (auto simp: modern_launch_kernel_def modern_launch_kernel_same_def Let_def)
qed

theorem C5_width_dispatch_witness:
  "has_same_arg_types \<lparr>arg_types = [C_float, C_float], result_type = C_bool\<rparr>
   \<and> 0 <s (1000 :: int64) \<and> 1000 \<le>s INT32_MAX
   \<and> issued (snd (modern_launch_kernel (\<lambda>t p. if p = 8 then 2 else 4) 128 4 1000
         \<lparr>arg_types = [C_float, C_float], result_type = C_bool\<rparr> [16, 8, 32]
         \<lparr>issued = [], last_error = 0, launch_error = (\<lambda>l. 0)\<rparr>))
       = [\<lparr>kernel = Modern_elementwise_kernel 2 128 4, grid = 2, block = 128, arg_N = 1000,
           arg_f = \<lparr>arg_types = [C_float, C_float], result_type = C_bool\<rparr>,
           arg_data = [16, 8, 32]\<rparr>]
   \<and> modern_launch_kernel (\<lambda>t p. 3) 128 4 1000
         \<lparr>arg_types = [C_float, C_float], result_type = C_bool\<rparr> [16, 8, 32]
         \<lparr>issued = [], last_error = 0, launch_error = (\<lambda>l. 0)\<rparr>
       = (Inl vec_size_assert, \<lparr>issued = [], last_error = 0, launch_error = (\<lambda>l. 0)\<rparr>)"
proof -
  have h: "has_same_arg_types \<lparr>arg_types = [C_float, C_float], result_type = C_bool\<rparr>"
    by (simp add: has_same_arg_types_def)
  have n: "0 <s (1000 :: int64)" "1000 \<le>s INT32_MAX"
    by (simp_all add: INT32_MAX_def word_sless_alt word_sle_eq)
  have v2: "can_vectorize_up_to (\<lambda>t p. if p = 8 then 2 else 4)
         \<lparr>arg_types = [C_float, C_float], result_type = C_bool\<rparr> [16, 8, 32] = 2"
    by (simp add: can_vectorize_up_to_def can_vectorize_loop.simps arity_def arg_type_def)
  have v3: "can_vectorize_up_to (\<lambda>t p. 3)
         \<lparr>arg_types = [C_float, C_float], result_type = C_bool\<rparr> [16, 8, 32] = 3"
    by (simp add: can_vectorize_up_to_def can_vectorize_loop.simps arity_def arg_type_def)
  have g: "launch_grid 128 4 1000 = 2" "launch_block 128 = 128"
    by (simp_all add: launch_grid_def launch_block_def div_int64_def signed_divide_int_def)
  show ?thesis
    using h n
      C5_width_dispatch [OF h n, of "\<lambda>t p. if p = 8 then 2 else 4" "[16, 8, 32]" 128 4
        "\<lparr>issued = [], last_error = 0, launch_error = (\<lambda>l. 0)\<rparr>"]
      C5_width_dispatch [OF h n, of "\<lambda>t p. 3" "[16, 8, 32]" 128 4
        "\<lparr>issued = [], last_error = 0, launch_error = (\<lambda>l. 0)\<rparr>"]
    by (simp add: v2 v3 g)
qed

section \<open>The policy of a block\<close>

text \<open>
  C1. Take a launch of the modern kernel with \<open>N\<close> in \<open>[1, INT32_MAX]\<close> and any of its
  blocks (\<open>blockIdx\<close> below the grid size the launch computes). The block's
  \<open>remaining\<close> is \<open>N - block_work_size * blockIdx\<close> in plain integers (nothing wraps).
  When \<open>remaining < block_work_size\<close> the block constructs the checked policy with that
  bound, otherwise it constructs the vectorized one; so the checked policy is used
  exactly when \<open>remaining < block_work_size\<close>. In the vectorized case the block's
  elements \<open>idx, \<dots>, idx + block_work_size - 1\<close>, with \<open>idx\<close> the base index of
  \<^verbatim>\<open>elementwise_kernel_helper\<close>, all lie in \<open>[0, N)\<close>.
\<close>

theorem C1_policy_choice:
  assumes "0 <s nt" and "0 <s vt" and "sint nt * sint vt \<le> 2147483647"
    and "0 <s N" and "N \<le>s INT32_MAX"
    and "blockIdx < launch_grid nt vt N"
  shows "sint (remaining nt vt (ucast N) blockIdx)
           = sint N - sint (block_work_size nt vt) * uint blockIdx
       \<and> (sint N - sint (block_work_size nt vt) * uint blockIdx < sint (block_work_size nt vt) \<longrightarrow>
            modern_elementwise_kernel v nt vt (ucast N) blockIdx
              = Checked_unroll (remaining nt vt (ucast N) blockIdx))
       \<and> (\<not> sint N - sint (block_work_size nt vt) * uint blockIdx < sint (block_work_size nt vt) \<longrightarrow>
            modern_elementwise_kernel v nt vt (ucast N) blockIdx = Vectorized v
          \<and> 0 \<le> sint (helper_idx nt vt blockIdx)
          \<and> sint (helper_idx nt vt blockIdx) + sint (block_work_size nt vt) \<le> sint N)"
proof -
  have bw: "sint (block_work_size nt vt) = sint nt * sint vt"
    using assms(1-3) by (rule sint_block_work_size)
  have re: "sint (remaining nt vt (ucast N) blockIdx) = sint N - sint nt * sint vt * uint blockIdx"
    using assms by (rule sint_remaining)
  have ix: "sint (helper_idx nt vt blockIdx) = sint nt * sint vt * uint blockIdx"
    using assms by (rule sint_helper_idx)
  have nv: "0 < sint nt * sint vt" using assms(1,2) by (rule block_work_size_pos)
  have i0: "0 \<le> sint nt * sint vt * uint blockIdx" using nv by simp
  show ?thesis
    using i0 by (simp add: modern_elementwise_kernel_def word_sless_alt bw re ix)
qed

theorem C1_policy_choice_witness:
  "0 <s (128 :: int32) \<and> 0 <s (4 :: int32) \<and> sint (128 :: int32) * sint (4 :: int32) \<le> 2147483647
   \<and> 0 <s (1000 :: int64) \<and> 1000 \<le>s INT32_MAX
   \<and> (0 :: uint32) < launch_grid 128 4 1000 \<and> (1 :: uint32) < launch_grid 128 4 1000
   \<and> modern_elementwise_kernel 4 128 4 (ucast (1000 :: int64)) 0 = Vectorized 4
   \<and> sint (helper_idx 128 4 0) + sint (block_work_size 128 4) \<le> sint (1000 :: int64)
   \<and> modern_elementwise_kernel 4 128 4 (ucast (1000 :: int64)) 1
        = Checked_unroll (remaining 128 4 (ucast (1000 :: int64)) 1)
   \<and> sint (remaining 128 4 (ucast (1000 :: int64)) 1) = 488"
proof -
  have t: "0 <s (128 :: int32)" "0 <s (4 :: int32)"
      "sint (128 :: int32) * sint (4 :: int32) \<le> 2147483647"
    by (simp_all add: word_sless_alt)
  have n: "0 <s (1000 :: int64)" "1000 \<le>s INT32_MAX"
    by (simp_all add: INT32_MAX_def word_sless_alt word_sle_eq)
  have g: "launch_grid 128 4 1000 = 2"
    by (simp add: launch_grid_def launch_block_def div_int64_def signed_divide_int_def)
  have b: "(0 :: uint32) < launch_grid 128 4 1000" "(1 :: uint32) < launch_grid 128 4 1000"
    by (simp_all add: g)
  have w: "sint (block_work_size 128 4) = 512"
    by (simp add: block_work_size_def)
  show ?thesis
    using t n b
      C1_policy_choice [OF t n b(1), of 4]
      C1_policy_choice [OF t n b(2), of 4]
    by (simp add: w)
qed

text \<open>
  C9. In a launch of the modern kernel with \<open>N\<close> in \<open>[1, INT32_MAX]\<close> the grid is
  \<open>ceil(N / (nt * vt))\<close>, and every block of the grid has \<open>remaining \<ge> 1\<close>: a checked policy is never constructed with a bound of zero
  or less, and the block's first element \<open>idx\<close> is an element of \<open>[0, N)\<close>, so the
  block has at least one element to process.
\<close>

theorem C9_remaining_positive:
  assumes "0 <s nt" and "0 <s vt" and "sint nt * sint vt \<le> 2147483647"
    and "0 <s N" and "N \<le>s INT32_MAX"
    and "blockIdx < launch_grid nt vt N"
  shows "uint (launch_grid nt vt N) = (sint N + sint nt * sint vt - 1) div (sint nt * sint vt)
       \<and> 1 \<le> sint (remaining nt vt (ucast N) blockIdx)
       \<and> (\<forall>r. modern_elementwise_kernel v nt vt (ucast N) blockIdx = Checked_unroll r
              \<longrightarrow> 1 \<le> sint r)
       \<and> 0 \<le> sint (helper_idx nt vt blockIdx)
       \<and> sint (helper_idx nt vt blockIdx) < sint N"
proof -
  have re: "sint (remaining nt vt (ucast N) blockIdx) = sint N - sint nt * sint vt * uint blockIdx"
    using assms by (rule sint_remaining)
  have ix: "sint (helper_idx nt vt blockIdx) = sint nt * sint vt * uint blockIdx"
    using assms by (rule sint_helper_idx)
  have lt: "sint nt * sint vt * uint blockIdx < sint N"
    using assms by (rule block_start_in_range)
  have nv: "0 < sint nt * sint vt" using assms(1,2) by (rule block_work_size_pos)
  have i0: "0 \<le> sint nt * sint vt * uint blockIdx" using nv by simp
  have r1: "1 \<le> sint (remaining nt vt (ucast N) blockIdx)" using re lt by simp
  have gr: "uint (launch_grid nt vt N) = (sint N + sint nt * sint vt - 1) div (sint nt * sint vt)"
    using assms(1-5) by (rule uint_launch_grid)
  show ?thesis
    using gr r1 i0 lt ix by (auto simp: modern_elementwise_kernel_def split: if_splits)
qed

theorem C9_remaining_positive_witness:
  "0 <s (128 :: int32) \<and> 0 <s (4 :: int32) \<and> sint (128 :: int32) * sint (4 :: int32) \<le> 2147483647
   \<and> 0 <s (1000 :: int64) \<and> 1000 \<le>s INT32_MAX
   \<and> (1 :: uint32) < launch_grid 128 4 1000
   \<and> 1 \<le> sint (remaining 128 4 (ucast (1000 :: int64)) 1)
   \<and> sint (helper_idx 128 4 1) < sint (1000 :: int64)"
proof -
  have t: "0 <s (128 :: int32)" "0 <s (4 :: int32)"
      "sint (128 :: int32) * sint (4 :: int32) \<le> 2147483647"
    by (simp_all add: word_sless_alt)
  have n: "0 <s (1000 :: int64)" "1000 \<le>s INT32_MAX"
    by (simp_all add: INT32_MAX_def word_sless_alt word_sle_eq)
  have g: "launch_grid 128 4 1000 = 2"
    by (simp add: launch_grid_def launch_block_def div_int64_def signed_divide_int_def)
  have b: "(1 :: uint32) < launch_grid 128 4 1000"
    by (simp add: g)
  show ?thesis
    using t n b C9_remaining_positive [OF t n b, of 4]
    by simp
qed

text \<open>
  C6. Scenario A: \<open>N = 1000\<close>, 128 threads, 4 elements per thread. The block work size
  is 512 and the launch enqueues one kernel with a grid of 2 blocks of 128 threads.
  Block 0 has 1000 elements remaining and takes the vectorized policy; block 1 has 488
  remaining and takes the checked policy with bound 488.
\<close>

theorem C6_scenario_A:
  "block_work_size 128 4 = 512
   \<and> launch_grid 128 4 1000 = 2
   \<and> launch_block 128 = 128
   \<and> issued (snd (modern_launch_kernel (\<lambda>t p. 4) 128 4 1000
         \<lparr>arg_types = [C_float, C_float], result_type = C_float\<rparr> [0, 4096, 8192]
         \<lparr>issued = [], last_error = 0, launch_error = (\<lambda>l. 0)\<rparr>))
       = [\<lparr>kernel = Modern_elementwise_kernel 4 128 4, grid = 2, block = 128, arg_N = 1000,
           arg_f = \<lparr>arg_types = [C_float, C_float], result_type = C_float\<rparr>,
           arg_data = [0, 4096, 8192]\<rparr>]
   \<and> remaining 128 4 1000 0 = 1000
   \<and> modern_elementwise_kernel v 128 4 1000 0 = Vectorized v
   \<and> remaining 128 4 1000 1 = 488
   \<and> modern_elementwise_kernel v 128 4 1000 1 = Checked_unroll 488"
proof -
  have g: "launch_grid 128 4 1000 = 2" "launch_block 128 = 128"
    by (simp_all add: launch_grid_def launch_block_def div_int64_def signed_divide_int_def)
  have v: "can_vectorize_up_to (\<lambda>t p. 4)
         \<lparr>arg_types = [C_float, C_float], result_type = C_float\<rparr> [0, 4096, 8192] = 4"
    by (simp add: can_vectorize_up_to_def can_vectorize_loop.simps arity_def arg_type_def)
  have l: "issued (snd (modern_launch_kernel (\<lambda>t p. 4) 128 4 1000
         \<lparr>arg_types = [C_float, C_float], result_type = C_float\<rparr> [0, 4096, 8192]
         \<lparr>issued = [], last_error = 0, launch_error = (\<lambda>l. 0)\<rparr>))
       = [\<lparr>kernel = Modern_elementwise_kernel 4 128 4, grid = 2, block = 128, arg_N = 1000,
           arg_f = \<lparr>arg_types = [C_float, C_float], result_type = C_float\<rparr>,
           arg_data = [0, 4096, 8192]\<rparr>]"
    by (simp add: modern_launch_kernel_def modern_launch_kernel_same_def has_same_arg_types_def
        INT32_MAX_def word_sle_eq Let_def v g)
  have r: "remaining 128 4 1000 0 = 1000" "remaining 128 4 1000 1 = 488"
    by (simp_all add: remaining_def block_work_size_def)
  have k: "modern_elementwise_kernel v 128 4 1000 0 = Vectorized v"
      "modern_elementwise_kernel v 128 4 1000 1 = Checked_unroll 488"
    by (simp_all add: modern_elementwise_kernel_def r) (simp_all add: block_work_size_def)
  show ?thesis using g l r k by (simp add: block_work_size_def)
qed

section \<open>The legacy kernel\<close>

subsection \<open>The loop of one thread\<close>

lemma unat_eq_nat_sint:
  fixes w :: "'a::len word"
  assumes "0 \<le> sint w"
  shows "unat w = nat (sint w)"
proof -
  have "unat w = nat (uint w)" by (rule unat_eq_nat_uint)
  then show ?thesis by (simp only: uint_eq_sint_nonneg [OF assms])
qed

lemma count_list_concat:
  "count_list (concat xss) w = sum_list (map (\<lambda>xs. count_list xs w) xss)"
  by (induction xss) simp_all

lemma sum_list_indicator:
  "sum_list (map (\<lambda>x. if x = a then 1 else 0) [0..<m]) = (if a < m then (1::nat) else 0)"
  by (induction m) auto

text \<open>An index has one decomposition into block, loop iteration and thread.\<close>

lemma tile_decomposition:
  fixes NT VT b t j :: nat
  assumes "0 < NT" and "0 < VT" and "t < NT"
  shows "(\<exists>i<VT. j = NT * VT * b + t + i * NT)
           \<longleftrightarrow> b = j div (NT * VT) \<and> t = (j mod (NT * VT)) mod NT"
proof
  assume "\<exists>i<VT. j = NT * VT * b + t + i * NT"
  then obtain i where i: "i < VT" "j = NT * VT * b + t + i * NT" by blast
  have "t + i * NT < NT + i * NT" using assms(3) by simp
  also have "\<dots> = Suc i * NT" by simp
  also have "\<dots> \<le> VT * NT" using i(1) by (intro mult_le_mono1) simp
  finally have r: "t + i * NT < NT * VT" by (simp add: mult.commute)
  define m where "m = NT * VT"
  define x where "x = t + i * NT"
  have xm: "x < m" using r by (simp add: m_def x_def)
  have j: "j = x + b * m" using i(2) by (simp add: m_def x_def algebra_simps)
  have "j div m = b" using xm by (simp add: j)
  moreover have "j mod m = x" using xm by (simp add: j)
  moreover have "x mod NT = t" using assms(3) by (simp add: x_def)
  ultimately show "b = j div (NT * VT) \<and> t = (j mod (NT * VT)) mod NT" by (simp add: m_def)
next
  assume a: "b = j div (NT * VT) \<and> t = (j mod (NT * VT)) mod NT"
  define r where "r = j mod (NT * VT)"
  have "r < NT * VT" using assms(1,2) by (simp add: r_def)
  then have i: "r div NT < VT" by (simp add: less_mult_imp_div_less mult.commute)
  have "j = NT * VT * (j div (NT * VT)) + r" by (simp add: r_def)
  also have "r = r mod NT + (r div NT) * NT" by simp
  finally have "j = NT * VT * b + t + (r div NT) * NT" using a by (simp add: r_def)
  with i show "\<exists>i<VT. j = NT * VT * b + t + i * NT" by blast
qed

lemma unat_template_args:
  assumes "0 <s nt" "0 <s vt" "sint nt * sint vt \<le> 2147483647"
  shows "0 < unat nt" and "0 < unat vt" and "unat nt * unat vt \<le> 2147483647"
    and "unat (nt * vt :: int32) = unat nt * unat vt" and "nat (sint vt) = unat vt"
    and "int (unat nt) = sint nt" and "int (unat vt) = sint vt"
proof -
  from assms have p: "0 \<le> sint nt" "0 \<le> sint vt" "0 < sint nt" "0 < sint vt"
    by (simp_all add: word_sless_alt)
  then have u: "unat nt = nat (sint nt)" "unat vt = nat (sint vt)"
    by (simp_all add: unat_eq_nat_sint)
  show "0 < unat nt" "0 < unat vt" using p u by simp_all
  show "nat (sint vt) = unat vt" using u by simp
  show i: "int (unat nt) = sint nt" "int (unat vt) = sint vt" using p u by simp_all
  have "int (unat nt * unat vt) \<le> 2147483647" using assms(3) i by simp
  then show "unat nt * unat vt \<le> 2147483647" by linarith
  have "int (unat (nt * vt)) = int (unat nt * unat vt)"
    using uint_block_work_size [OF assms] i by simp
  then show "unat (nt * vt :: int32) = unat nt * unat vt" by (simp only: of_nat_eq_iff)
qed

lemma unat_kernel_N:
  fixes N :: int64
  assumes "0 <s N" "N \<le>s INT32_MAX"
  shows "0 < unat (ucast N :: int32)" and "unat (ucast N :: int32) \<le> 2147483647"
    and "sint (ucast N :: int32) = int (unat (ucast N :: int32))"
    and "sint N = int (unat (ucast N :: int32))"
proof -
  from assms have r: "0 \<le>s N" "0 < sint N" "sint N \<le> 2147483647"
    by (simp_all add: word_sless_alt word_sle_eq sint_INT32_MAX)
  have s: "sint (ucast N :: int32) = sint N" using r(1) assms(2) by (rule sint_ucast_in_range)
  then have "0 \<le> sint (ucast N :: int32)" using r by simp
  then have u: "unat (ucast N :: int32) = nat (sint (ucast N :: int32))" by (rule unat_eq_nat_sint)
  show "0 < unat (ucast N :: int32)" using u s r by simp
  show "unat (ucast N :: int32) \<le> 2147483647" using u s r by simp
  show "sint (ucast N :: int32) = int (unat (ucast N :: int32))" using u s r by simp
  show "sint N = int (unat (ucast N :: int32))" using u s r by simp
qed

lemma unat_launch_grid:
  assumes "0 <s nt" "0 <s vt" "sint nt * sint vt \<le> 2147483647"
    and "0 <s N" "N \<le>s INT32_MAX"
  shows "unat (launch_grid nt vt N)
           = (unat (ucast N :: int32) + unat nt * unat vt - 1) div (unat nt * unat vt)"
proof -
  define n where "n = unat (ucast N :: int32)"
  define nv where "nv = unat nt * unat vt"
  have nv: "0 < nv" "sint nt * sint vt = int nv"
    using unat_template_args [OF assms(1-3)] by (simp_all add: nv_def)
  have n: "0 < n" "sint N = int n"
    using unat_kernel_N [OF assms(4,5)] by (simp_all add: n_def)
  have "int (unat (launch_grid nt vt N)) = (int n + int nv - 1) div int nv"
    using uint_launch_grid [OF assms] by (simp add: nv n)
  also have "int n + int nv - 1 = int (n + nv - 1)" using n(1) by simp
  also have "int (n + nv - 1) div int nv = int ((n + nv - 1) div nv)" by (simp add: zdiv_int)
  finally show ?thesis by (simp only: of_nat_eq_iff n_def nv_def)
qed

lemma grid_covers:
  fixes n nv :: nat
  assumes "0 < nv"
  shows "n \<le> nv * ((n + nv - 1) div nv)" and "b < (n + nv - 1) div nv \<Longrightarrow> nv * b < n"
proof -
  define q where "q = (n + nv - 1) div nv"
  define r where "r = (n + nv - 1) mod nv"
  have e: "nv * q + r = n + nv - 1" unfolding q_def r_def by (rule mult_div_mod_eq)
  have r: "r < nv" using assms by (simp add: r_def)
  show "n \<le> nv * ((n + nv - 1) div nv)" using e r unfolding q_def [symmetric] by linarith
  show "nv * b < n" if "b < (n + nv - 1) div nv"
  proof -
    from that have "Suc b \<le> q" by (simp add: q_def)
    then have "nv * Suc b \<le> nv * q" by (rule mult_le_mono2)
    then have "nv * b + nv \<le> nv * q" by simp
    with e r assms show ?thesis by linarith
  qed
qed

lemma unat_of_nat32: "m < 4294967296 \<Longrightarrow> unat (of_nat m :: uint32) = m"
  by (simp add: unat_of_nat)


lemma those_map_Some:
  "(\<And>x. x \<in> set xs \<Longrightarrow> f x = Some (g x)) \<Longrightarrow> those (map f xs) = Some (map g xs)"
  by (induction xs) simp_all

lemma those_map_None:
  "x \<in> set xs \<Longrightarrow> f x = None \<Longrightarrow> those (map f xs) = None"
  by (induction xs) (auto split: option.splits)

lemma sint_add_no_overflow:
  fixes a b :: int32
  assumes "\<not> add_overflows a b"
  shows "sint (a + b) = sint a + sint b"
proof -
  from assms have "- (2 ^ 31) \<le> sint a + sint b" "sint a + sint b < 2 ^ 31"
    by (simp_all add: add_overflows_def)
  then have "signed_take_bit 31 (sint a + sint b) = sint a + sint b"
    by (rule signed_take_bit_int_eq_self)
  then show ?thesis by (simp add: sint_word_ariths)
qed

lemma legacy_loop_stuck: "\<not> idx <s N \<Longrightarrow> legacy_loop k nt N idx = Some []"
  by (induction k) simp_all

lemma legacy_loop_defined:
  assumes "0 < sint nt" and "sint N + sint nt \<le> 2147483648"
  shows "\<exists>xs. legacy_loop k nt N idx = Some xs"
proof (induction k arbitrary: idx)
  case 0
  show ?case by simp
next
  case (Suc k)
  show ?case
  proof (cases "idx <s N")
    case True
    have "- 2147483648 \<le> sint idx" using sint_ge [of idx] by simp
    with True assms have "\<not> add_overflows idx nt"
      by (simp add: add_overflows_def word_sless_alt)
    moreover obtain ys where "legacy_loop k nt N (idx + nt) = Some ys"
      using Suc [of "idx + nt"] by blast
    ultimately show ?thesis using True by simp
  next
    case False
    then show ?thesis using Suc [of idx] by simp
  qed
qed

lemma legacy_loop_calls_in_range:
  assumes "0 < sint nt"
  shows "legacy_loop k nt N idx = Some xs \<Longrightarrow> 0 \<le> sint idx \<Longrightarrow> x \<in> set xs
    \<Longrightarrow> 0 \<le>s x \<and> x <s N \<and> \<not> add_overflows x nt"
proof (induction k arbitrary: idx xs)
  case 0
  then show ?case by simp
next
  case (Suc k)
  show ?case
  proof (cases "idx <s N")
    case True
    with Suc.prems(1) have no: "\<not> add_overflows idx nt"
      by (auto split: if_splits)
    with True Suc.prems(1) obtain ys where ys: "legacy_loop k nt N (idx + nt) = Some ys" "xs = idx # ys"
      by auto
    have "sint (idx + nt) = sint idx + sint nt" using no by (rule sint_add_no_overflow)
    with Suc.prems(2) assms have nn: "0 \<le> sint (idx + nt)" by simp
    show ?thesis
    proof (cases "x = idx")
      case True
      with \<open>idx <s N\<close> no Suc.prems(2) show ?thesis by (simp add: word_sle_eq)
    next
      case False
      with Suc.prems(3) ys have "x \<in> set ys" by simp
      with ys(1) nn show ?thesis by (rule Suc.IH)
    qed
  next
    case False
    with Suc.prems show ?thesis by (simp add: legacy_loop_stuck)
  qed
qed

lemma legacy_loop_length: "legacy_loop k nt N idx = Some xs \<Longrightarrow> length xs \<le> k"
proof (induction k arbitrary: idx xs)
  case 0
  then show ?case by simp
next
  case (Suc k)
  show ?case
  proof (cases "idx <s N")
    case True
    with Suc.prems obtain ys where "legacy_loop k nt N (idx + nt) = Some ys" "xs = idx # ys"
      by (auto split: if_splits)
    then show ?thesis using Suc.IH [of "idx + nt" ys] by simp
  next
    case False
    with Suc.prems show ?thesis using Suc.IH [of idx xs] by simp
  qed
qed

lemma legacy_loop_stride:
  "legacy_loop k nt N idx = Some xs \<Longrightarrow> xs = map (\<lambda>i. idx + of_nat i * nt) [0..<length xs]"
proof (induction k arbitrary: idx xs)
  case 0
  then show ?case by simp
next
  case (Suc k)
  show ?case
  proof (cases "idx <s N")
    case True
    with Suc.prems obtain ys where ys: "legacy_loop k nt N (idx + nt) = Some ys" "xs = idx # ys"
      by (auto split: if_splits)
    let ?m = "length ys"
    have "ys = map (\<lambda>i. idx + nt + of_nat i * nt) [0..<?m]"
      using ys(1) by (rule Suc.IH)
    also have "\<dots> = map (\<lambda>i. idx + of_nat (Suc i) * nt) [0..<?m]"
      by (simp add: algebra_simps)
    finally have "idx # ys = map (\<lambda>i. idx + of_nat i * nt) [0..<Suc ?m]"
      by (simp only: map_upt_Suc) simp
    with ys(2) show ?thesis by simp
  next
    case False
    with Suc.prems show ?thesis by (simp add: legacy_loop_stuck)
  qed
qed

lemma legacy_loop_count:
  fixes nt N idx w :: int32
  assumes "0 < sint nt" and "0 \<le> sint w" and "sint w < sint N"
  shows "legacy_loop k nt N idx = Some xs \<Longrightarrow> 0 \<le> sint idx \<Longrightarrow>
         count_list xs w = (if \<exists>i<k. sint w = sint idx + int i * sint nt then 1 else 0)"
proof (induction k arbitrary: idx xs)
  case 0
  then show ?case by simp
next
  case (Suc k)
  show ?case
  proof (cases "idx <s N")
    case False
    then have "sint N \<le> sint idx" by (simp add: word_sless_alt)
    with assms have lt: "sint w < sint idx" by simp
    have "\<not> (\<exists>i<Suc k. sint w = sint idx + int i * sint nt)"
    proof
      assume "\<exists>i<Suc k. sint w = sint idx + int i * sint nt"
      then obtain i where "sint w = sint idx + int i * sint nt" by blast
      moreover have "0 \<le> int i * sint nt" using assms(1) by simp
      ultimately show False using lt by linarith
    qed
    with False Suc.prems show ?thesis by (simp add: legacy_loop_stuck)
  next
    case True
    with Suc.prems(1) have no: "\<not> add_overflows idx nt"
      by (auto split: if_splits)
    with True Suc.prems(1) obtain ys where ys: "legacy_loop k nt N (idx + nt) = Some ys" "xs = idx # ys"
      by auto
    have s: "sint (idx + nt) = sint idx + sint nt" using no by (rule sint_add_no_overflow)
    with Suc.prems(2) assms(1) have nn: "0 \<le> sint (idx + nt)" by simp
    have ih: "count_list ys w
        = (if \<exists>i<k. sint w = sint idx + sint nt + int i * sint nt then 1 else 0)"
      using Suc.IH [OF ys(1) nn] s by simp
    have e: "(idx = w) = (sint w = sint idx)"
      using word_eq_iff_signed [of idx w, where ?'a = int] by auto
    have split: "(\<exists>i<Suc k. sint w = sint idx + int i * sint nt)
        \<longleftrightarrow> sint w = sint idx \<or> (\<exists>i<k. sint w = sint idx + sint nt + int i * sint nt)"
    proof
      assume "\<exists>i<Suc k. sint w = sint idx + int i * sint nt"
      then obtain i where i: "i < Suc k" "sint w = sint idx + int i * sint nt" by blast
      show "sint w = sint idx \<or> (\<exists>i<k. sint w = sint idx + sint nt + int i * sint nt)"
      proof (cases i)
        case 0
        with i show ?thesis by simp
      next
        case (Suc i')
        with i have "i' < k" "sint w = sint idx + sint nt + int i' * sint nt"
          by (simp_all add: algebra_simps)
        then show ?thesis by blast
      qed
    next
      assume "sint w = sint idx \<or> (\<exists>i<k. sint w = sint idx + sint nt + int i * sint nt)"
      then show "\<exists>i<Suc k. sint w = sint idx + int i * sint nt"
      proof
        assume "sint w = sint idx"
        then have "0 < Suc k \<and> sint w = sint idx + int 0 * sint nt" by simp
        then show ?thesis by blast
      next
        assume "\<exists>i<k. sint w = sint idx + sint nt + int i * sint nt"
        then obtain i where "i < k" "sint w = sint idx + sint nt + int i * sint nt" by blast
        then have "Suc i < Suc k \<and> sint w = sint idx + int (Suc i) * sint nt"
          by (simp add: algebra_simps)
        then show ?thesis by blast
      qed
    qed
    have excl: "\<not> (sint w = sint idx \<and> (\<exists>i<k. sint w = sint idx + sint nt + int i * sint nt))"
    proof
      assume a: "sint w = sint idx \<and> (\<exists>i<k. sint w = sint idx + sint nt + int i * sint nt)"
      then obtain i where "sint w = sint idx + sint nt + int i * sint nt" by blast
      moreover have "0 \<le> int i * sint nt" using assms(1) by simp
      ultimately show False using a assms(1) by linarith
    qed
    show ?thesis using ys(2) ih e split excl by auto
  qed
qed

subsection \<open>The threads of a launch\<close>

lemma template_args_no_overflow:
  assumes "0 <s nt" "0 <s vt" "sint nt * sint vt \<le> 2147483647"
  shows "\<not> mul_overflows nt vt"
proof -
  have "0 < sint nt * sint vt" using assms(1,2) by (rule block_work_size_pos)
  with assms(3) show ?thesis by (simp add: mul_overflows_def)
qed

text \<open>The first index of a thread, when block and thread lie below \<open>2 ^ 31\<close>.\<close>

lemma sint_thread_start:
  assumes t: "0 <s nt" "0 <s vt" "sint nt * sint vt \<le> 2147483647"
    and s: "unat nt * unat vt * b + t < 2147483648"
  shows "sint (nt * vt * of_nat b + of_nat t :: int32) = int (unat nt * unat vt * b + t)"
proof -
  define NT where "NT = unat nt"
  define VT where "VT = unat vt"
  note ta = unat_template_args [OF t, folded NT_def VT_def]
  have nv0: "0 < NT * VT" using ta(1,2) by simp
  have s': "NT * VT * b + t < 2147483648" using s by (simp add: NT_def VT_def)
  have b32: "b < 4294967296"
  proof -
    have "b * 1 \<le> b * (NT * VT)" using nv0 by (intro mult_le_mono2) simp
    then have "b \<le> NT * VT * b" by (simp add: mult.commute)
    with s' show ?thesis by linarith
  qed
  have t32: "t < 4294967296" using s' by linarith
  have ub: "unat (of_nat b :: uint32) = b" using b32 by (rule unat_of_nat32)
  have ut: "unat (of_nat t :: uint32) = t" using t32 by (rule unat_of_nat32)
  have "unat (nt * vt) * unat (of_nat b :: uint32) < 2 ^ LENGTH(32)"
    using s' by (simp add: ta(4) ub)
  then have um: "unat (nt * vt * of_nat b) = NT * VT * b"
    by (simp only: unat_mult_lem) (simp add: ta(4) ub)
  have "unat (nt * vt * of_nat b) + unat (of_nat t :: uint32) < 2 ^ LENGTH(32)"
    using s' by (simp add: um ut)
  then have ui: "unat (nt * vt * of_nat b + of_nat t) = NT * VT * b + t"
    by (simp only: unat_add_lem) (simp add: um ut)
  have "uint (nt * vt * of_nat b + of_nat t) = int (NT * VT * b + t)"
    by (simp only: uint_nat ui)
  moreover have "int (NT * VT * b + t) < int 2147483648"
    using s' by (simp only: of_nat_less_iff)
  then have "int (NT * VT * b + t) < 2 ^ (LENGTH(32) - Suc 0)" by simp
  moreover note sint_eq_uint_small [of "nt * vt * of_nat b + of_nat t"]
  ultimately have "sint (nt * vt * of_nat b + of_nat t) = int (NT * VT * b + t)"
    by simp
  then show ?thesis by (simp add: NT_def VT_def)
qed

lemma legacy_thread_defined:
  assumes t: "0 <s nt" "0 <s vt" "sint nt * sint vt \<le> 2147483647"
    and "sint N + sint nt \<le> 2147483648"
  shows "\<exists>xs. legacy_elementwise_kernel nt vt N blockIdx threadIdx = Some xs"
proof -
  have "0 < sint nt" using t(1) by (simp add: word_sless_alt)
  then have "\<exists>xs. legacy_loop (nat (sint vt)) nt N (nt * vt * blockIdx + threadIdx) = Some xs"
    using assms(4) by (rule legacy_loop_defined)
  then show ?thesis
    using template_args_no_overflow [OF t] by (simp add: legacy_elementwise_kernel_def)
qed

lemma legacy_thread_calls_in_range:
  assumes t: "0 <s nt" "0 <s vt" "sint nt * sint vt \<le> 2147483647"
    and s: "unat nt * unat vt * b + t < 2147483648"
    and r: "legacy_elementwise_kernel nt vt N (of_nat b) (of_nat t) = Some xs"
    and x: "x \<in> set xs"
  shows "0 \<le>s x \<and> x <s N \<and> \<not> add_overflows x nt"
proof -
  have nt: "0 < sint nt" using t(1) by (simp add: word_sless_alt)
  have l: "legacy_loop (nat (sint vt)) nt N (nt * vt * of_nat b + of_nat t) = Some xs"
    using r template_args_no_overflow [OF t] by (simp add: legacy_elementwise_kernel_def)
  have "0 \<le> sint (nt * vt * of_nat b + of_nat t :: int32)"
    using sint_thread_start [OF t s] by simp
  with nt l show ?thesis using x by (rule legacy_loop_calls_in_range)
qed

lemma legacy_thread_count:
  assumes t: "0 <s nt" "0 <s vt" "sint nt * sint vt \<le> 2147483647"
    and s: "unat nt * unat vt * b + t < 2147483648" and th: "t < unat nt"
    and r: "legacy_elementwise_kernel nt vt N (of_nat b) (of_nat t) = Some xs"
    and w: "0 \<le>s w" "w <s N"
  shows "count_list xs w
           = (if b = unat w div (unat nt * unat vt)
                 \<and> t = (unat w mod (unat nt * unat vt)) mod unat nt then 1 else 0)"
proof -
  define NT where "NT = unat nt"
  define VT where "VT = unat vt"
  note ta = unat_template_args [OF t, folded NT_def VT_def]
  have nt: "0 < sint nt" using t(1) by (simp add: word_sless_alt)
  have l: "legacy_loop VT nt N (nt * vt * of_nat b + of_nat t) = Some xs"
    using r template_args_no_overflow [OF t] by (simp add: legacy_elementwise_kernel_def ta(5))
  have st: "sint (nt * vt * of_nat b + of_nat t :: int32) = int (NT * VT * b + t)"
    using sint_thread_start [OF t s] by (simp add: NT_def VT_def)
  then have nn: "0 \<le> sint (nt * vt * of_nat b + of_nat t :: int32)" by simp
  have w': "0 \<le> sint w" "sint w < sint N"
    using w by (simp_all add: word_sle_eq word_sless_alt)
  have sw: "sint w = int (unat w)" using w'(1) by (simp add: unat_eq_nat_sint)
  have "count_list xs w
      = (if \<exists>i<VT. sint w = sint (nt * vt * of_nat b + of_nat t :: int32) + int i * sint nt
         then 1 else 0)"
    using nt w' l nn by (rule legacy_loop_count)
  also have "(\<exists>i<VT. sint w = sint (nt * vt * of_nat b + of_nat t :: int32) + int i * sint nt)
      \<longleftrightarrow> (\<exists>i<VT. int (unat w) = int (NT * VT * b + t + i * NT))"
    by (simp add: st sw ta(6) [symmetric])
  also have "\<dots> \<longleftrightarrow> (\<exists>i<VT. unat w = NT * VT * b + t + i * NT)"
    by (simp only: of_nat_eq_iff)
  also have "\<dots> \<longleftrightarrow> b = unat w div (NT * VT) \<and> t = (unat w mod (NT * VT)) mod NT"
    using ta(1,2) th unfolding NT_def [symmetric] by (rule tile_decomposition)
  finally show ?thesis by (simp add: NT_def VT_def)
qed

subsection \<open>Counting the calls of a grid\<close>

lemma legacy_grid_calls_Some:
  assumes "\<And>b t. b < unat gridDim \<Longrightarrow> t < unat blockDim \<Longrightarrow>
             legacy_elementwise_kernel nt vt N (of_nat b) (of_nat t) = Some (K b t)"
  shows "legacy_grid_calls nt vt N gridDim blockDim
           = Some (concat (map (\<lambda>b. concat (map (K b) [0..<unat blockDim])) [0..<unat gridDim]))"
proof -
  have inner: "map_option concat
        (those (map (\<lambda>t. legacy_elementwise_kernel nt vt N (of_nat b) (of_nat t)) [0..<unat blockDim]))
      = Some (concat (map (K b) [0..<unat blockDim]))" if "b \<in> set [0..<unat gridDim]" for b
  proof -
    have "those (map (\<lambda>t. legacy_elementwise_kernel nt vt N (of_nat b) (of_nat t)) [0..<unat blockDim])
        = Some (map (K b) [0..<unat blockDim])"
      using that by (intro those_map_Some assms) simp_all
    then show ?thesis by simp
  qed
  have "those (map (\<lambda>b. map_option concat
        (those (map (\<lambda>t. legacy_elementwise_kernel nt vt N (of_nat b) (of_nat t)) [0..<unat blockDim])))
        [0..<unat gridDim])
      = Some (map (\<lambda>b. concat (map (K b) [0..<unat blockDim])) [0..<unat gridDim])"
    by (rule those_map_Some) (rule inner)
  then show ?thesis by (simp add: legacy_grid_calls_def)
qed

lemma legacy_grid_calls_None:
  assumes "b < unat gridDim" and "t < unat blockDim"
    and "legacy_elementwise_kernel nt vt N (of_nat b) (of_nat t) = None"
  shows "legacy_grid_calls nt vt N gridDim blockDim = None"
proof -
  have "those (map (\<lambda>t. legacy_elementwise_kernel nt vt N (of_nat b) (of_nat t)) [0..<unat blockDim])
      = None"
    using assms(2,3) by (intro those_map_None [of t]) simp_all
  then have "map_option concat
      (those (map (\<lambda>t. legacy_elementwise_kernel nt vt N (of_nat b) (of_nat t)) [0..<unat blockDim]))
      = None" by simp
  then have "those (map (\<lambda>b. map_option concat
        (those (map (\<lambda>t. legacy_elementwise_kernel nt vt N (of_nat b) (of_nat t)) [0..<unat blockDim])))
        [0..<unat gridDim]) = None"
    using assms(1) by (intro those_map_None [of b]) simp_all
  then show ?thesis by (simp add: legacy_grid_calls_def)
qed

text \<open>Every thread of the grid starts below \<open>N\<close>; its thread offset is below \<open>nt\<close>.\<close>

lemma thread_start_bound:
  fixes N :: int64
  assumes t: "0 <s nt" "0 <s vt" "sint nt * sint vt \<le> 2147483647"
    and n: "0 <s N" "N \<le>s INT32_MAX"
    and b: "b < unat (launch_grid nt vt N)" and th: "t < unat nt"
  shows "unat nt * unat vt * b + t < unat (ucast N :: int32) + unat nt"
proof -
  have nv0: "0 < unat nt * unat vt" using unat_template_args(1,2) [OF t] by simp
  have "unat nt * unat vt * b < unat (ucast N :: int32)"
    using b grid_covers(2) [OF nv0, of b "unat (ucast N :: int32)"]
    by (simp add: unat_launch_grid [OF t n])
  with th show ?thesis by linarith
qed

text \<open>
  When \<open>N + nt\<close> does not exceed \<open>2 ^ 31\<close> no thread overflows: the launch calls \<open>f\<close>
  exactly once on every index of \<open>[0, N)\<close> and on no other index.
\<close>

lemma legacy_grid_each_index_once:
  fixes N :: int64
  assumes t: "0 <s nt" "0 <s vt" "sint nt * sint vt \<le> 2147483647"
    and n: "0 <s N" "N \<le>s INT32_MAX"
    and safe: "sint N + sint nt \<le> 2147483648"
  shows "\<exists>calls. legacy_grid_calls nt vt (ucast N) (launch_grid nt vt N) (launch_block nt) = Some calls
          \<and> (\<forall>idx. count_list calls idx = (if 0 \<le>s idx \<and> idx <s ucast N then 1 else 0))"
proof -
  define NT where "NT = unat nt"
  define VT where "VT = unat vt"
  define n' where "n' = unat (ucast N :: int32)"
  define G where "G = unat (launch_grid nt vt N)"
  define K where "K b t = the (legacy_elementwise_kernel nt vt (ucast N) (of_nat b) (of_nat t))" for b t
  define calls where "calls = concat (map (\<lambda>b. concat (map (K b) [0..<NT])) [0..<G])"
  note ta = unat_template_args [OF t, folded NT_def VT_def]
  note na = unat_kernel_N [OF n, folded n'_def]
  have nv0: "0 < NT * VT" using ta(1,2) by simp
  have g: "G = (n' + NT * VT - 1) div (NT * VT)"
    using unat_launch_grid [OF t n] by (simp add: NT_def VT_def n'_def G_def)
  have safe': "sint (ucast N :: int32) + sint nt \<le> 2147483648"
    using safe na(3,4) by simp
  have "int n' + int NT \<le> 2147483648" using safe na(4) ta(6) by simp
  then have safe_nat: "n' + NT \<le> 2147483648" by linarith
  have K: "legacy_elementwise_kernel nt vt (ucast N) (of_nat b) (of_nat t) = Some (K b t)" for b t
    using legacy_thread_defined [OF t safe', of "of_nat b" "of_nat t"] by (auto simp: K_def)
  have start: "unat nt * unat vt * b + t < 2147483648" if "b < G" "t < NT" for b t
    using thread_start_bound [OF t n, of b t] that safe_nat by (simp add: G_def NT_def n'_def)
  have run: "legacy_grid_calls nt vt (ucast N) (launch_grid nt vt N) (launch_block nt) = Some calls"
    unfolding calls_def NT_def G_def
    using legacy_grid_calls_Some [of "launch_grid nt vt N" "launch_block nt" nt vt "ucast N" K] K
    by (simp add: launch_block_def)
  have inside: "count_list calls w = 1" if w: "0 \<le>s w" "w <s ucast N" for w
  proof -
    define j where "j = unat w"
    have w': "0 \<le> sint w" "sint w < sint (ucast N :: int32)"
      using w by (simp_all add: word_sle_eq word_sless_alt)
    have "int j = sint w" using w'(1) by (simp add: j_def unat_eq_nat_sint)
    then have jn: "j < n'" using w'(2) na(3) by simp
    have "j < NT * VT * G" using jn grid_covers(1) [OF nv0, of n'] g by simp
    then have jb: "j div (NT * VT) < G" by (simp add: less_mult_imp_div_less mult.commute)
    have jt: "(j mod (NT * VT)) mod NT < NT" using ta(1) by simp
    have inner: "sum_list (map (\<lambda>t. count_list (K b t) w) [0..<NT])
          = (if b = j div (NT * VT) then 1 else 0)" if "b < G" for b
    proof -
      have "map (\<lambda>t. count_list (K b t) w) [0..<NT]
          = map (\<lambda>t. if b = j div (NT * VT) \<and> t = (j mod (NT * VT)) mod NT then 1 else 0) [0..<NT]"
      proof (rule map_cong [OF refl])
        fix t assume "t \<in> set [0..<NT]"
        then have tn: "t < NT" by simp
        then have "t < unat nt" by (simp add: NT_def)
        then show "count_list (K b t) w
            = (if b = j div (NT * VT) \<and> t = (j mod (NT * VT)) mod NT then 1 else 0)"
          using legacy_thread_count [OF t start [OF that tn] _ K w]
          by (simp add: NT_def VT_def j_def)
      qed
      also have "sum_list \<dots> = (if b = j div (NT * VT) then 1 else 0)"
      proof (cases "b = j div (NT * VT)")
        case True
        then show ?thesis using jt by (simp add: sum_list_indicator)
      next
        case False
        then show ?thesis by simp
      qed
      finally show ?thesis .
    qed
    have "count_list calls w
        = sum_list (map (\<lambda>b. sum_list (map (\<lambda>t. count_list (K b t) w) [0..<NT])) [0..<G])"
      by (simp add: calls_def count_list_concat comp_def)
    also have "map (\<lambda>b. sum_list (map (\<lambda>t. count_list (K b t) w) [0..<NT])) [0..<G]
        = map (\<lambda>b. if b = j div (NT * VT) then 1 else 0) [0..<G]"
      by (rule map_cong [OF refl]) (simp add: inner)
    also have "sum_list \<dots> = 1" using jb by (simp add: sum_list_indicator)
    finally show ?thesis .
  qed
  have outside: "count_list calls w = 0" if w: "\<not> (0 \<le>s w \<and> w <s ucast N)" for w
  proof -
    have "w \<notin> set calls"
    proof
      assume "w \<in> set calls"
      then obtain b t where bt: "b < G" "t < NT" "w \<in> set (K b t)"
        by (auto simp: calls_def)
      have "0 \<le>s w \<and> w <s ucast N \<and> \<not> add_overflows w nt"
        using t start [OF bt(1,2)] K bt(3) by (rule legacy_thread_calls_in_range)
      with w show False by simp
    qed
    then show ?thesis by simp
  qed
  from run inside outside show ?thesis by auto
qed

text \<open>
  When \<open>N + nt\<close> exceeds \<open>2 ^ 31\<close> the thread that calls \<open>f\<close> on \<open>N - 1\<close> goes on to
  \<^verbatim>\<open>idx += nt\<close>, which overflows: the behaviour of the launch is undefined.
\<close>

lemma legacy_grid_overflows:
  fixes N :: int64
  assumes t: "0 <s nt" "0 <s vt" "sint nt * sint vt \<le> 2147483647"
    and n: "0 <s N" "N \<le>s INT32_MAX"
    and big: "2147483648 < sint N + sint nt"
  shows "legacy_grid_calls nt vt (ucast N) (launch_grid nt vt N) (launch_block nt) = None"
proof -
  define NT where "NT = unat nt"
  define VT where "VT = unat vt"
  define n' where "n' = unat (ucast N :: int32)"
  define G where "G = unat (launch_grid nt vt N)"
  define j where "j = n' - 1"
  define w :: int32 where "w = of_nat j"
  define b where "b = j div (NT * VT)"
  define th where "th = (j mod (NT * VT)) mod NT"
  note ta = unat_template_args [OF t, folded NT_def VT_def]
  note na = unat_kernel_N [OF n, folded n'_def]
  have nv0: "0 < NT * VT" using ta(1,2) by simp
  have g: "G = (n' + NT * VT - 1) div (NT * VT)"
    using unat_launch_grid [OF t n] by (simp add: NT_def VT_def n'_def G_def)
  have jn: "j < n'" "j < 2147483648" using na(1,2) by (simp_all add: j_def)
  have uw: "unat w = j" unfolding w_def using jn(2) by (intro unat_of_nat32) simp
  have "uint w = int j" by (simp only: uint_nat uw)
  moreover have "int j < int 2147483648" using jn(2) by (simp only: of_nat_less_iff)
  then have "int j < 2 ^ (LENGTH(32) - Suc 0)" by simp
  moreover note sint_eq_uint_small [of w]
  ultimately have sw: "sint w = int j" by simp
  have w: "0 \<le>s w" "w <s ucast N"
    using sw jn(1) na(3) by (simp_all add: word_sle_eq word_sless_alt)
  have "int n' + int NT > 2147483648" using big na(4) ta(6) by simp
  then have "sint w + sint nt > 2147483647" using sw ta(6) na(1) by (simp add: j_def)
  then have ov: "add_overflows w nt" by (simp add: add_overflows_def)
  have "j < NT * VT * G" using jn(1) grid_covers(1) [OF nv0, of n'] g by simp
  then have bG: "b < G" by (simp add: b_def less_mult_imp_div_less mult.commute)
  have tN: "th < NT" using ta(1) by (simp add: th_def)
  have "th \<le> j mod (NT * VT)" by (simp add: th_def)
  moreover have "NT * VT * b + j mod (NT * VT) = j" by (simp add: b_def)
  ultimately have "NT * VT * b + th \<le> j" by linarith
  with jn(2) have start: "unat nt * unat vt * b + th < 2147483648" by (simp add: NT_def VT_def)
  have none: "legacy_elementwise_kernel nt vt (ucast N) (of_nat b) (of_nat th) = None"
  proof (cases "legacy_elementwise_kernel nt vt (ucast N) (of_nat b) (of_nat th)")
    case None
    then show ?thesis .
  next
    case (Some xs)
    have "th < unat nt" using tN by (simp add: NT_def)
    then have "count_list xs w = 1"
      using legacy_thread_count [OF t start _ Some w]
      by (simp add: uw b_def th_def NT_def VT_def)
    then have "w \<in> set xs" using count_list_0_iff [of xs w] by simp
    then have "\<not> add_overflows w nt"
      using legacy_thread_calls_in_range [OF t start Some] by simp
    with ov show ?thesis by simp
  qed
  show ?thesis
    using bG tN none
    by (intro legacy_grid_calls_None [of b _ th]) (simp_all add: G_def NT_def launch_block_def)
qed

lemma legacy_grid_overflows_128_4:
  "legacy_grid_calls 128 4 (ucast (2147483647 :: int64))
     (launch_grid 128 4 2147483647) (launch_block 128) = None"
proof -
  have t: "0 <s (128 :: int32)" "0 <s (4 :: int32)"
      "sint (128 :: int32) * sint (4 :: int32) \<le> 2147483647"
    by (simp_all add: word_sless_alt)
  have n: "0 <s (2147483647 :: int64)" "2147483647 \<le>s INT32_MAX"
    by (simp_all add: INT32_MAX_def word_sless_alt word_sle_eq)
  have b: "2147483648 < sint (2147483647 :: int64) + sint (128 :: int32)" by simp
  show ?thesis using t n b by (rule legacy_grid_overflows)
qed

text \<open>
  C7. The legacy launch does not call \<open>f\<close> exactly once per index for every \<open>N\<close> in
  \<open>[1, INT32_MAX]\<close>. Take \<open>nt = 128\<close>, \<open>vt = 3\<close> and \<open>N = INT32_MAX\<close>: the launch
  computes a grid of 5592406 blocks of 128 threads. Thread 0 of block 5592405 starts at
  \<open>idx = 2147483520\<close>, which is below \<open>N\<close>, so it calls \<open>f(idx)\<close>; the following
  \<^verbatim>\<open>idx += nt\<close> leaves the range of \<^verbatim>\<open>int\<close> with two more iterations to go. The behaviour of
  the thread, and with it of the launch, is undefined.
\<close>

theorem C7_signed_overflow_in_last_block:
  "0 <s (128 :: int32) \<and> 0 <s (3 :: int32) \<and> sint (128 :: int32) * sint (3 :: int32) \<le> 2147483647
   \<and> 0 <s (2147483647 :: int64) \<and> 2147483647 \<le>s INT32_MAX
   \<and> launch_grid 128 3 2147483647 = 5592406 \<and> launch_block 128 = 128
   \<and> 128 * 3 * (5592405 :: int32) + 0 = 2147483520
   \<and> (2147483520 :: int32) <s ucast (2147483647 :: int64)
   \<and> add_overflows 2147483520 128
   \<and> legacy_elementwise_kernel 128 3 (ucast (2147483647 :: int64)) 5592405 0 = None
   \<and> legacy_grid_calls 128 3 (ucast (2147483647 :: int64))
        (launch_grid 128 3 2147483647) (launch_block 128) = None"
proof -
  have t: "0 <s (128 :: int32)" "0 <s (3 :: int32)"
      "sint (128 :: int32) * sint (3 :: int32) \<le> 2147483647"
    by (simp_all add: word_sless_alt)
  have n: "0 <s (2147483647 :: int64)" "2147483647 \<le>s INT32_MAX"
    by (simp_all add: INT32_MAX_def word_sless_alt word_sle_eq)
  have g: "launch_grid 128 3 2147483647 = 5592406" "launch_block 128 = 128"
    by (simp_all add: launch_grid_def launch_block_def div_int64_def signed_divide_int_def)
  have i: "128 * 3 * (5592405 :: int32) + 0 = 2147483520" by simp
  have c: "(2147483520 :: int32) <s ucast (2147483647 :: int64)"
    by (simp add: word_sless_alt)
  have o: "add_overflows 2147483520 128" by (simp add: add_overflows_def)
  have k: "legacy_elementwise_kernel 128 3 (ucast (2147483647 :: int64)) 5592405 0 = None"
    by (simp add: legacy_elementwise_kernel_def mul_overflows_def add_overflows_def
        numeral_3_eq_3 word_sless_alt)
  have "legacy_elementwise_kernel 128 3 (ucast (2147483647 :: int64))
          (of_nat 5592405) (of_nat 0) = None"
    using k by simp
  then have "legacy_grid_calls 128 3 (ucast (2147483647 :: int64)) 5592406 128 = None"
    by (intro legacy_grid_calls_None [of 5592405 _ 0]) simp_all
  then show ?thesis using t n g i c o k by simp
qed

end
